theory Spec2Isabelle
  imports Main "HOL-Library.Sublist"
begin

section \<open>Strings\<close>

text \<open>
  Go strings are byte sequences; \<^typ>\<open>string\<close> is a list of 8-bit characters, so a
  string of the program is the list of its bytes.

  \<^verbatim>\<open>strings.Split(s, sep)\<close> is used by the program with the one-byte separators
  \<^verbatim>\<open>","\<close> and \<^verbatim>\<open>"/"\<close> only; the separator is a character here. Go cuts the
  string at every occurrence of the separator and returns the pieces in order, so the result
  of splitting the empty string is one empty piece.
\<close>

function strings_Split :: "string \<Rightarrow> char \<Rightarrow> string list" where
  "strings_Split s sep =
     (case dropWhile (\<lambda>c. c \<noteq> sep) s of
        [] \<Rightarrow> [s]
      | _ # rest \<Rightarrow> takeWhile (\<lambda>c. c \<noteq> sep) s # strings_Split rest sep)"
  by pat_completeness auto
termination
proof (relation "measure (\<lambda>(s, sep). length s)")
  show "wf (measure (\<lambda>(s, sep). length s))"
    by simp
next
  fix s :: string and sep :: char and x :: char and rest :: string
  assume "dropWhile (\<lambda>c. c \<noteq> sep) s = x # rest"
  then have "Suc (length rest) \<le> length s"
    using length_dropWhile_le [of "\<lambda>c. c \<noteq> sep" s] by simp
  then show "((rest, sep), (s, sep)) \<in> measure (\<lambda>(s, sep). length s)"
    by simp
qed

declare strings_Split.simps [simp del]

fun strings_Join :: "string list \<Rightarrow> string \<Rightarrow> string" where
  "strings_Join [] sep = []"
| "strings_Join [x] sep = x"
| "strings_Join (x # y # ys) sep = x @ sep @ strings_Join (y # ys) sep"

text \<open>\<^verbatim>\<open>fmt.Sprintf("%v/%v:%v", repository, container, tag)\<close>\<close>

definition containerPath :: "string \<Rightarrow> string \<Rightarrow> string \<Rightarrow> string" where
  "containerPath r c t = r @ ''/'' @ c @ '':'' @ t"

fun contains :: "string list \<Rightarrow> string \<Rightarrow> bool" where
  "contains [] val = False"
| "contains (v # vs) val = (if v = val then True else contains vs val)"

section \<open>The tag sanitizer\<close>

text \<open>
  The character class \<^verbatim>\<open>[^a-zA-Z0-9_.\-]\<close> of the regular expression is the complement
  of \<open>tagChar\<close>. Go's regexp package matches code points of the UTF-8 decoding of the
  string; every byte of a code point beyond ASCII, and every byte that is not valid UTF-8
  (decoded as U+FFFD, one byte wide), is at least 128 and so outside \<open>tagChar\<close>, and a byte
  below 128 is always a code point of its own. A maximal run of code points outside the class
  is therefore a maximal run of bytes outside the class, and the bytewise reading below is
  what the program computes.
\<close>

definition tagChar :: "char \<Rightarrow> bool" where
  "tagChar c =
     (let n = (of_char c :: nat) in
      (of_char (CHR ''a'') \<le> n \<and> n \<le> of_char (CHR ''z'')) \<or>
      (of_char (CHR ''A'') \<le> n \<and> n \<le> of_char (CHR ''Z'')) \<or>
      (of_char (CHR ''0'') \<le> n \<and> n \<le> of_char (CHR ''9'')) \<or>
      c = CHR ''_'' \<or> c = CHR ''.'' \<or> c = CHR ''-'')"

text \<open>
  \<^verbatim>\<open>reg.ReplaceAllString(buildVersion, "-")\<close> for the expression \<^verbatim>\<open>[^a-zA-Z0-9_.\-]+\<close>:
  the matches are found from left to right, each one as long as possible (the \<^verbatim>\<open>+\<close> is
  greedy), and do not overlap; the text between the matches is copied. The replacement
  \<^verbatim>\<open>"-"\<close> has no \<^verbatim>\<open>$\<close>, so it is inserted as it is.
\<close>

function tidyBuildVersionAsTag :: "string \<Rightarrow> string" where
  "tidyBuildVersionAsTag [] = []"
| "tidyBuildVersionAsTag (c # cs) =
     (if tagChar c then c # tidyBuildVersionAsTag cs
      else CHR ''-'' # tidyBuildVersionAsTag (dropWhile (\<lambda>d. \<not> tagChar d) cs))"
  by pat_completeness auto
termination
  by (relation "measure length") (auto simp: length_dropWhile_le less_Suc_eq_le)

text \<open>
  The rule in the words of the specification: the string is cut into its maximal runs of
  characters of one kind (all inside, or all outside, the legal set); a run of illegal
  characters becomes one dash, a run of legal characters stays.
\<close>

function runs :: "('a \<Rightarrow> bool) \<Rightarrow> 'a list \<Rightarrow> 'a list list" where
  "runs P [] = []"
| "runs P (c # cs) =
     (c # takeWhile (\<lambda>d. P d = P c) cs) # runs P (dropWhile (\<lambda>d. P d = P c) cs)"
  by pat_completeness auto
termination
  by (relation "measure (\<lambda>(P, s). length s)") (auto simp: length_dropWhile_le less_Suc_eq_le)

definition sanitize_spec :: "string \<Rightarrow> string" where
  "sanitize_spec s = concat (map (\<lambda>r. if tagChar (hd r) then r else ''-'') (runs tagChar s))"

section \<open>Credentials\<close>

text \<open>
  Modelled from the spec: the type \<^verbatim>\<open>contracts.ContainerRepositoryCredentialConfig\<close>
  is declared in the package \<^verbatim>\<open>estafette-ci-contracts\<close>, outside the repository. The
  program reads its fields \<^verbatim>\<open>Repository\<close>, \<^verbatim>\<open>Username\<close> and \<^verbatim>\<open>Password\<close>,
  the three fields of the specification's credential record.
\<close>

record ContainerRepositoryCredentialConfig =
  Repository :: string
  Username :: string
  Password :: string

text \<open>
  The credentials are a slice of pointers: an entry is \<open>None\<close> for a nil pointer (the
  JSON value \<^verbatim>\<open>null\<close> inside the array decodes to one). A nil slice and an empty
  slice are both the empty list: the program only ranges over the slice.
\<close>

type_synonym credentials = "ContainerRepositoryCredentialConfig option list"

datatype command = Command (cmd_name: string) (cmd_args: "string list") (cmd_dir: string)

datatype error =
    ConfigFatal string
  | CommandFailed command
  | NilDereference
  | IndexOutOfRange

text \<open>
  The loop of \<^verbatim>\<open>getCredentialsForContainer\<close>. Reading \<^verbatim>\<open>credentials.Repository\<close>
  through a nil pointer panics. \<open>strings_Split\<close> never returns the empty list, so the slice
  expression \<^verbatim>\<open>containerImageSlice[:len(containerImageSlice)-1]\<close> is always in range and
  is \<open>butlast\<close>.
\<close>

fun getCredentialsForContainer ::
  "credentials \<Rightarrow> string \<Rightarrow> error + ContainerRepositoryCredentialConfig option" where
  "getCredentialsForContainer [] containerImage = Inr None"
| "getCredentialsForContainer (p # ps) containerImage =
     (let containerImageSlice = strings_Split containerImage (CHR ''/'');
          containerRepo = strings_Join (butlast containerImageSlice) ''/''
      in case p of
           None \<Rightarrow> Inl NilDereference
         | Some c \<Rightarrow>
             if containerRepo = Repository c then Inr (Some c)
             else getCredentialsForContainer ps containerImage)"

section \<open>Running commands\<close>

text \<open>
  The program acts on the world only by running external commands, one after the other, each
  to completion. The state of a run is the list of the commands started so far, in order. The
  world decides whether a command succeeds, from the commands run before it and the command
  itself. A run ends with \<open>None\<close> when it reaches its end, with \<open>Some e\<close> when the process
  terminates early: \<^verbatim>\<open>log.Fatal\<close> (exit status 1) or a panic. The lines the program logs
  with \<^verbatim>\<open>log.Printf\<close> are not part of the state.
\<close>

type_synonym trace = "command list"

type_synonym world = "trace \<Rightarrow> command \<Rightarrow> bool"

type_synonym proc = "trace \<Rightarrow> error option \<times> trace"

definition skip :: proc where
  "skip tr = (None, tr)"

definition abort :: "error \<Rightarrow> proc" where
  "abort e tr = (Some e, tr)"

definition seq :: "proc \<Rightarrow> proc \<Rightarrow> proc" where
  "seq p q tr = (case p tr of (None, tr') \<Rightarrow> q tr' | (Some e, tr') \<Rightarrow> (Some e, tr'))"

fun foreach :: "'a list \<Rightarrow> ('a \<Rightarrow> proc) \<Rightarrow> proc" where
  "foreach [] body = skip"
| "foreach (x # xs) body = seq (body x) (foreach xs body)"

text \<open>\<^verbatim>\<open>err := cmd.Run(); handleError(err)\<close>: a failed command ends the process.\<close>

definition execCommand :: "world \<Rightarrow> command \<Rightarrow> proc" where
  "execCommand w c tr = (if w tr c then None else Some (CommandFailed c), tr @ [c])"

text \<open>\<^verbatim>\<open>runCommand\<close> runs the command in the directory \<^verbatim>\<open>/estafette-work\<close>.\<close>

definition runCommand :: "world \<Rightarrow> string \<Rightarrow> string list \<Rightarrow> proc" where
  "runCommand w cmd arguments = execCommand w (Command cmd arguments ''/estafette-work'')"

text \<open>
  \<^verbatim>\<open>loginIfRequired\<close> starts the login with \<^verbatim>\<open>exec.Command("docker", loginArgs...).Run()\<close>,
  in the directory of the process (\<^verbatim>\<open>cmd.Dir\<close> is empty).
\<close>

definition loginIfRequired :: "world \<Rightarrow> credentials \<Rightarrow> string \<Rightarrow> proc" where
  "loginIfRequired w credentials containerImage =
     (case getCredentialsForContainer credentials containerImage of
        Inl e \<Rightarrow> abort e
      | Inr None \<Rightarrow> skip
      | Inr (Some credential) \<Rightarrow>
          (let loginArgs = [''login'', ''--username'', Username credential,
                            ''--password'', Password credential];
               repositorySlice = strings_Split (Repository credential) (CHR ''/'');
               loginArgs = (if length repositorySlice > 1
                            then loginArgs @ [repositorySlice ! 0] else loginArgs)
           in execCommand w (Command ''docker'' loginArgs '''')))"

section \<open>The three actions\<close>

text \<open>
  The argument list of \<^verbatim>\<open>docker build\<close>, built by appending in two nested loops and a
  third loop; \<open>getenv\<close> is \<^verbatim>\<open>os.Getenv\<close> (the empty string for an unset variable).
\<close>

definition buildArgs ::
  "(string \<Rightarrow> string) \<Rightarrow> string list \<Rightarrow> string \<Rightarrow> string list \<Rightarrow> string list \<Rightarrow>
   string \<Rightarrow> string \<Rightarrow> string \<Rightarrow> string list" where
  "buildArgs getenv repositoriesSlice container tagsSlice argsSlice path dockerfile
     estafetteBuildVersionAsTag =
     (let args = [''build''];
          args = foldl (\<lambda>args r.
                   foldl (\<lambda>args t. args @ [''--tag'', containerPath r container t])
                     (args @ [''--tag'', containerPath r container estafetteBuildVersionAsTag])
                     tagsSlice)
                   args repositoriesSlice;
          args = foldl (\<lambda>args a. args @ [''--build-arg'', a @ ''='' @ getenv a]) args argsSlice
      in args @ [''--file'', path @ ''/'' @ dockerfile, path])"

text \<open>
  In the three actions \<^verbatim>\<open>repositoriesSlice[0]\<close> panics on an empty slice; \<open>main\<close> never
  reaches an action with one.
\<close>

definition buildAction ::
  "world \<Rightarrow> (string \<Rightarrow> string) \<Rightarrow> credentials \<Rightarrow> string list \<Rightarrow> string \<Rightarrow> string list \<Rightarrow>
   string \<Rightarrow> string \<Rightarrow> string list \<Rightarrow> string list \<Rightarrow> string \<Rightarrow> proc" where
  "buildAction w getenv credentials repositoriesSlice container tagsSlice path dockerfile
     copySlice argsSlice estafetteBuildVersionAsTag =
     seq (runCommand w ''mkdir'' [''-p'', path])
       (let copySlice = (if path \<noteq> ''.'' \<and> \<not> contains copySlice dockerfile
                         then copySlice @ [dockerfile] else copySlice)
        in seq (foreach copySlice (\<lambda>c. runCommand w ''cp'' [''-r'', c, path]))
             (case repositoriesSlice of
                [] \<Rightarrow> abort IndexOutOfRange
              | r0 # _ \<Rightarrow>
                  (let containerPath0 = containerPath r0 container estafetteBuildVersionAsTag
                   in seq (loginIfRequired w credentials containerPath0)
                        (runCommand w ''docker''
                           (buildArgs getenv repositoriesSlice container tagsSlice argsSlice
                              path dockerfile estafetteBuildVersionAsTag)))))"

text \<open>
  In the push action the default tag of a later repository is set with
  \<^verbatim>\<open>exec.Command("docker", tagArgs...).Run()\<close>, every other command with
  \<^verbatim>\<open>runCommand\<close>.
\<close>

definition pushAction ::
  "world \<Rightarrow> credentials \<Rightarrow> string list \<Rightarrow> string \<Rightarrow> string list \<Rightarrow> string \<Rightarrow> proc" where
  "pushAction w credentials repositoriesSlice container tagsSlice estafetteBuildVersionAsTag =
     (case repositoriesSlice of
        [] \<Rightarrow> abort IndexOutOfRange
      | r0 # _ \<Rightarrow>
          (let sourceContainerPath = containerPath r0 container estafetteBuildVersionAsTag
           in foreach (enumerate 0 repositoriesSlice) (\<lambda>(i, r).
                (let targetContainerPath = containerPath r container estafetteBuildVersionAsTag
                 in seq (if i > 0
                         then execCommand w
                                (Command ''docker''
                                   [''tag'', sourceContainerPath, targetContainerPath] '''')
                         else skip)
                   (seq (loginIfRequired w credentials targetContainerPath)
                   (seq (runCommand w ''docker'' [''push'', targetContainerPath])
                     (foreach tagsSlice (\<lambda>t.
                        (let targetContainerPath = containerPath r container t
                         in seq (runCommand w ''docker''
                                   [''tag'', sourceContainerPath, targetContainerPath])
                           (seq (loginIfRequired w credentials targetContainerPath)
                             (runCommand w ''docker'' [''push'', targetContainerPath])))))))))))"

definition tagAction ::
  "world \<Rightarrow> credentials \<Rightarrow> string list \<Rightarrow> string \<Rightarrow> string list \<Rightarrow> string \<Rightarrow> proc" where
  "tagAction w credentials repositoriesSlice container tagsSlice estafetteBuildVersionAsTag =
     (case repositoriesSlice of
        [] \<Rightarrow> abort IndexOutOfRange
      | r0 # _ \<Rightarrow>
          (let sourceContainerPath = containerPath r0 container estafetteBuildVersionAsTag
           in seq (loginIfRequired w credentials sourceContainerPath)
             (seq (runCommand w ''docker'' [''pull'', sourceContainerPath])
               (foreach (enumerate 0 repositoriesSlice) (\<lambda>(i, r).
                  (let targetContainerPath =
                         containerPath r container estafetteBuildVersionAsTag
                   in seq (if i > 0
                           then seq (runCommand w ''docker''
                                       [''tag'', sourceContainerPath, targetContainerPath])
                                  (seq (loginIfRequired w credentials targetContainerPath)
                                    (runCommand w ''docker'' [''push'', targetContainerPath]))
                           else skip)
                        (foreach tagsSlice (\<lambda>t.
                           (let targetContainerPath = containerPath r container t
                            in seq (runCommand w ''docker''
                                      [''tag'', sourceContainerPath, targetContainerPath])
                              (seq (loginIfRequired w credentials targetContainerPath)
                                (runCommand w ''docker''
                                   [''push'', targetContainerPath])))))))))))"

section \<open>The main function\<close>

text \<open>The flags, as kingpin leaves them after parsing (each one a string).\<close>

record flags =
  action :: string
  repositories :: string
  container :: string
  tags :: string
  path :: string
  dockerfile :: string
  copy :: string
  args :: string

text \<open>
  Modelled from the spec: \<^verbatim>\<open>json.Unmarshal\<close> belongs to Go's standard library. A JSON
  parser is a parameter of the model; it answers with a syntax error, with the decoded
  array, or with a type mismatch and the part of the array decoded all the same. The
  program ignores the error that \<^verbatim>\<open>json.Unmarshal\<close> returns and keeps what is then in the
  variable: after a syntax error that is the value the variable had before the call (the
  specification: absent or malformed input yields an empty set, not an error).
\<close>

datatype json_outcome =
    SyntaxError
  | Decoded credentials
  | TypeMismatch credentials

type_synonym decoder = "string \<Rightarrow> json_outcome"

definition json_Unmarshal :: "decoder \<Rightarrow> string \<Rightarrow> credentials \<Rightarrow> credentials" where
  "json_Unmarshal decode js target =
     (case decode js of
        SyntaxError \<Rightarrow> target
      | Decoded v \<Rightarrow> v
      | TypeMismatch v \<Rightarrow> v)"

definition loadCredentials :: "decoder \<Rightarrow> (string \<Rightarrow> string) \<Rightarrow> credentials" where
  "loadCredentials decode getenv =
     (let credentialsJSON = getenv ''ESTAFETTE_CI_REPOSITORY_CREDENTIALS_JSON'';
          credentials = []
      in if credentialsJSON \<noteq> '''' then json_Unmarshal decode credentialsJSON credentials
         else credentials)"

definition validateRepositories :: "string \<Rightarrow> proc" where
  "validateRepositories repos =
     (if repos = ''''
      then abort (ConfigFatal
        ''Set `repositories:` to list at least one `- <repository>` (for example like `- extensions`)'')
      else skip)"

definition splitList :: "string \<Rightarrow> string list" where
  "splitList s = (if s \<noteq> '''' then strings_Split s (CHR '','') else [])"

definition main :: "world \<Rightarrow> decoder \<Rightarrow> (string \<Rightarrow> string) \<Rightarrow> flags \<Rightarrow> proc" where
  "main w decode getenv fl =
     (let appLabel = getenv ''ESTAFETTE_LABEL_APP'';
          fl = (if container fl = '''' \<and> appLabel \<noteq> ''''
                then fl\<lparr>container := appLabel\<rparr> else fl);
          credentials = loadCredentials decode getenv
      in seq (validateRepositories (repositories fl))
           (let repositoriesSlice = splitList (repositories fl);
                tagsSlice = splitList (tags fl);
                copySlice = splitList (copy fl);
                argsSlice = splitList (args fl);
                estafetteBuildVersion = getenv ''ESTAFETTE_BUILD_VERSION'';
                estafetteBuildVersionAsTag = tidyBuildVersionAsTag estafetteBuildVersion
            in if action fl = ''build''
               then buildAction w getenv credentials repositoriesSlice (container fl) tagsSlice
                      (path fl) (dockerfile fl) copySlice argsSlice estafetteBuildVersionAsTag
               else if action fl = ''push''
               then pushAction w credentials repositoriesSlice (container fl) tagsSlice
                      estafetteBuildVersionAsTag
               else if action fl = ''tag''
               then tagAction w credentials repositoriesSlice (container fl) tagsSlice
                      estafetteBuildVersionAsTag
               else abort (ConfigFatal
                      ''Set `command: <command>` on this step to build, push or tag'')))"

section \<open>Plans\<close>

text \<open>
  The specification describes a run as a sequence of engine operations, computed from the
  request and carried out in order until one fails. A plan is that sequence: a step is a
  command to run, or the point where the run breaks off by itself.
\<close>

datatype step = Do command | Stop error

fun execute :: "world \<Rightarrow> step list \<Rightarrow> proc" where
  "execute w [] = skip"
| "execute w (Do c # ss) = seq (execCommand w c) (execute w ss)"
| "execute w (Stop e # ss) = abort e"

fun commands :: "step list \<Rightarrow> command list" where
  "commands [] = []"
| "commands (Do c # ss) = c # commands ss"
| "commands (Stop e # ss) = commands ss"

text \<open>The world in which every command succeeds.\<close>

definition all_succeed :: world where
  "all_succeed tr c = True"

text \<open>\<open>docker_op name c\<close>: the command \<open>c\<close> is \<^verbatim>\<open>docker name ...\<close>.\<close>

definition docker_op :: "string \<Rightarrow> command \<Rightarrow> bool" where
  "docker_op name c = (cmd_name c = ''docker'' \<and> take 1 (cmd_args c) = [name])"

definition docker_run :: "string list \<Rightarrow> command" where
  "docker_run arguments = Command ''docker'' arguments ''/estafette-work''"

text \<open>
  The repository portion of an image reference: what stands before its last slash (nothing
  when it has no slash).
\<close>

definition repository_of :: "string \<Rightarrow> string" where
  "repository_of img =
     rev (drop 1 (dropWhile (\<lambda>c. c \<noteq> CHR ''/'') (rev img)))"

text \<open>
  The login of the specification: username and password, and the registry host, the first
  segment of the credential's repository, when that repository has a slash.
\<close>

definition login_command :: "ContainerRepositoryCredentialConfig \<Rightarrow> command" where
  "login_command c =
     Command ''docker''
       ([''login'', ''--username'', Username c, ''--password'', Password c] @
        (if CHR ''/'' \<in> set (Repository c)
         then [takeWhile (\<lambda>x. x \<noteq> CHR ''/'') (Repository c)] else []))
       []"

definition login_step :: "credentials \<Rightarrow> string \<Rightarrow> step list" where
  "login_step credentials img =
     (case getCredentialsForContainer credentials img of
        Inl e \<Rightarrow> [Stop e]
      | Inr None \<Rightarrow> []
      | Inr (Some c) \<Rightarrow> [Do (login_command c)])"

text \<open>Tag the source as the target, log in if required, push the target.\<close>

definition publish_step ::
  "credentials \<Rightarrow> string \<Rightarrow> string \<Rightarrow> string \<Rightarrow> string \<Rightarrow> step list" where
  "publish_step credentials source r c t =
     [Do (docker_run [''tag'', source, containerPath r c t])] @
     login_step credentials (containerPath r c t) @
     [Do (docker_run [''push'', containerPath r c t])]"

definition push_plan ::
  "credentials \<Rightarrow> string list \<Rightarrow> string \<Rightarrow> string list \<Rightarrow> string \<Rightarrow> step list" where
  "push_plan credentials repos c tgs v =
     (let source = containerPath (hd repos) c v
      in concat (map (\<lambda>(i, r).
           (if 0 < i then [Do (Command ''docker'' [''tag'', source, containerPath r c v] [])]
            else []) @
           login_step credentials (containerPath r c v) @
           [Do (docker_run [''push'', containerPath r c v])] @
           concat (map (publish_step credentials source r c) tgs))
         (enumerate 0 repos)))"

definition tag_plan ::
  "credentials \<Rightarrow> string list \<Rightarrow> string \<Rightarrow> string list \<Rightarrow> string \<Rightarrow> step list" where
  "tag_plan credentials repos c tgs v =
     (let source = containerPath (hd repos) c v
      in login_step credentials source @
         [Do (docker_run [''pull'', source])] @
         concat (map (\<lambda>(i, r).
           (if 0 < i then publish_step credentials source r c v else []) @
           concat (map (publish_step credentials source r c) tgs))
         (enumerate 0 repos)))"

text \<open>
  The arguments of the build: one tag argument for every pair of a repository and a tag (the
  default tag, then the explicit tags), one build argument for every requested name.
\<close>

definition build_arguments ::
  "(string \<Rightarrow> string) \<Rightarrow> string list \<Rightarrow> string \<Rightarrow> string list \<Rightarrow> string list \<Rightarrow>
   string \<Rightarrow> string \<Rightarrow> string \<Rightarrow> string list" where
  "build_arguments getenv repos c tgs names dir file v =
     [''build''] @
     concat (map (\<lambda>(r, t). [''--tag'', containerPath r c t]) (List.product repos (v # tgs))) @
     concat (map (\<lambda>a. [''--build-arg'', a @ ''='' @ getenv a]) names) @
     [''--file'', dir @ ''/'' @ file, dir]"

text \<open>
  The build: make the build directory, copy the listed files into it (and the dockerfile,
  when the build directory is not the default and the list lacks it), log in if required for
  the first repository's image, build once.
\<close>

definition build_plan ::
  "(string \<Rightarrow> string) \<Rightarrow> credentials \<Rightarrow> string list \<Rightarrow> string \<Rightarrow> string list \<Rightarrow>
   string \<Rightarrow> string \<Rightarrow> string list \<Rightarrow> string list \<Rightarrow> string \<Rightarrow> step list" where
  "build_plan getenv credentials repos c tgs dir file copies names v =
     [Do (Command ''mkdir'' [''-p'', dir] ''/estafette-work'')] @
     map (\<lambda>f. Do (Command ''cp'' [''-r'', f, dir] ''/estafette-work''))
       (if dir \<noteq> ''.'' \<and> file \<notin> set copies then copies @ [file] else copies) @
     login_step credentials (containerPath (hd repos) c v) @
     [Do (docker_run (build_arguments getenv repos c tgs names dir file v))]"

section \<open>Properties of the tag sanitizer\<close>

lemma tagChar_enum:
  "tagChar c \<longleftrightarrow>
     c \<in> set ''abcdefghijklmnopqrstuvwxyzABCDEFGHIJKLMNOPQRSTUVWXYZ0123456789_.-''"
  by (cases c) (simp add: tagChar_def)

lemma tagChar_dash: "tagChar (CHR ''-'')"
  by (simp add: tagChar_def)

lemma tidy_legal_string: "\<forall>c\<in>set s. tagChar c \<Longrightarrow> tidyBuildVersionAsTag s = s"
  by (induction s) auto

lemma tidy_result_legal: "c \<in> set (tidyBuildVersionAsTag s) \<Longrightarrow> tagChar c"
proof (induction s rule: tidyBuildVersionAsTag.induct)
  case 1
  then show ?case by simp
next
  case (2 d cs)
  show ?case
  proof (cases "tagChar d")
    case True
    with 2 show ?thesis by auto
  next
    case False
    with 2 show ?thesis by (auto simp: tagChar_dash)
  qed
qed

lemma tidy_takeWhile:
  "tidyBuildVersionAsTag s = takeWhile tagChar s @ tidyBuildVersionAsTag (dropWhile tagChar s)"
  by (induction s) auto

lemma runs_concat: "concat (runs P s) = s"
  by (induction P s rule: runs.induct) auto

lemma runs_nonempty: "r \<in> set (runs P s) \<Longrightarrow> r \<noteq> []"
  by (induction P s rule: runs.induct) auto

lemma runs_uniform: "r \<in> set (runs P s) \<Longrightarrow> c \<in> set r \<Longrightarrow> P c = P (hd r)"
proof (induction P s rule: runs.induct)
  case (1 P)
  then show ?case by simp
next
  case (2 P d cs)
  from 2(2) consider "r = d # takeWhile (\<lambda>x. P x = P d) cs"
    | "r \<in> set (runs P (dropWhile (\<lambda>x. P x = P d) cs))" by auto
  then show ?case
  proof cases
    case 1
    with 2(3) show ?thesis by (auto dest: set_takeWhileD)
  next
    case 2
    then show ?thesis using "2.IH" "2.prems"(2) by simp
  qed
qed

lemma runs_first: "s \<noteq> [] \<Longrightarrow> hd (hd (runs P s)) = hd s"
  by (cases s) auto

lemma runs_Nil: "runs P s = [] \<longleftrightarrow> s = []"
  by (cases s) auto

lemma runs_alternate:
  "Suc i < length (runs P s) \<Longrightarrow> P (hd (runs P s ! Suc i)) \<noteq> P (hd (runs P s ! i))"
proof (induction P s arbitrary: i rule: runs.induct)
  case (1 P)
  then show ?case by simp
next
  case (2 P c cs)
  let ?rest = "dropWhile (\<lambda>d. P d = P c) cs"
  show ?case
  proof (cases i)
    case 0
    with 2 have ne: "runs P ?rest \<noteq> []" by auto
    then have r: "?rest \<noteq> []" by (simp add: runs_Nil)
    then have "P (hd ?rest) \<noteq> P c"
      using hd_dropWhile [of "\<lambda>d. P d = P c" cs] by blast
    moreover have "hd (runs P ?rest ! 0) = hd ?rest"
      using runs_first [OF r, of P] ne by (simp add: hd_conv_nth)
    ultimately show ?thesis using 0 by simp
  next
    case (Suc j)
    with 2 show ?thesis by simp
  qed
qed

lemma tidy_is_sanitize_spec: "tidyBuildVersionAsTag s = sanitize_spec s"
  unfolding sanitize_spec_def
proof (induction tagChar s rule: runs.induct)
  case 1
  then show ?case by simp
next
  case (2 c cs)
  show ?case
  proof (cases "tagChar c")
    case True
    then have eq: "(\<lambda>d. tagChar d = tagChar c) = tagChar" by auto
    have "tidyBuildVersionAsTag (c # cs) = c # tidyBuildVersionAsTag cs" using True by simp
    also have "\<dots> = c # takeWhile tagChar cs @ tidyBuildVersionAsTag (dropWhile tagChar cs)"
      using tidy_takeWhile [of cs] by simp
    finally show ?thesis using True 2 by (simp add: eq)
  next
    case False
    then have eq: "(\<lambda>d. tagChar d = tagChar c) = (\<lambda>d. \<not> tagChar d)" by auto
    show ?thesis using False 2 by (simp add: eq)
  qed
qed


text \<open>
  Claim C2. For every string the sanitizer returns a result (it is a total function), and
  the result is the specification's: the input is the concatenation of its runs, every run
  is non-empty and of one kind, neighbouring runs are of different kinds (so the runs are
  maximal), a run of characters outside the ASCII letters, digits, underscore, period and
  dash becomes one dash and every other run is copied unchanged. The two examples of the
  specification hold.
\<close>

theorem tidyBuildVersionAsTag_replaces_runs:
  "tidyBuildVersionAsTag s =
     concat (map (\<lambda>r. if tagChar (hd r) then r else ''-'') (runs tagChar s))
   \<and> concat (runs tagChar s) = s
   \<and> (\<forall>r\<in>set (runs tagChar s). r \<noteq> [] \<and> (\<forall>c\<in>set r. tagChar c = tagChar (hd r)))
   \<and> (\<forall>i. Suc i < length (runs tagChar s) \<longrightarrow>
          tagChar (hd (runs tagChar s ! Suc i)) \<noteq> tagChar (hd (runs tagChar s ! i)))
   \<and> (\<forall>c. tagChar c \<longleftrightarrow>
          c \<in> set ''abcdefghijklmnopqrstuvwxyzABCDEFGHIJKLMNOPQRSTUVWXYZ0123456789_.-'')
   \<and> tidyBuildVersionAsTag ''1.2.3-rc.1'' = ''1.2.3-rc.1''
   \<and> tidyBuildVersionAsTag ''feature/foo bar'' = ''feature-foo-bar''"
proof (intro conjI)
  show "tidyBuildVersionAsTag s =
          concat (map (\<lambda>r. if tagChar (hd r) then r else ''-'') (runs tagChar s))"
    using tidy_is_sanitize_spec [of s] by (simp only: sanitize_spec_def)
  show "concat (runs tagChar s) = s"
    by (rule runs_concat)
  show "\<forall>r\<in>set (runs tagChar s). r \<noteq> [] \<and> (\<forall>c\<in>set r. tagChar c = tagChar (hd r))"
    by (intro ballI conjI) (erule runs_nonempty, erule (1) runs_uniform)
  show "\<forall>i. Suc i < length (runs tagChar s) \<longrightarrow>
          tagChar (hd (runs tagChar s ! Suc i)) \<noteq> tagChar (hd (runs tagChar s ! i))"
    by (intro allI impI) (erule runs_alternate)
  show "\<forall>c. tagChar c \<longleftrightarrow>
          c \<in> set ''abcdefghijklmnopqrstuvwxyzABCDEFGHIJKLMNOPQRSTUVWXYZ0123456789_.-''"
    by (rule allI) (rule tagChar_enum)
  show "tidyBuildVersionAsTag ''1.2.3-rc.1'' = ''1.2.3-rc.1''"
    by (simp add: tagChar_def)
  show "tidyBuildVersionAsTag ''feature/foo bar'' = ''feature-foo-bar''"
    by (simp add: tagChar_def)
qed

theorem tidyBuildVersionAsTag_replaces_runs_witness:
  "tidyBuildVersionAsTag ''a/ b'' = ''a-b''
   \<and> runs tagChar ''a/ b'' = [''a'', ''/ '', ''b'']
   \<and> ''/ '' \<in> set (runs tagChar ''a/ b'')
   \<and> tagChar (CHR '' '') = tagChar (hd ''/ '')
   \<and> Suc 0 < length (runs tagChar ''a/ b'')
   \<and> tagChar (hd (runs tagChar ''a/ b'' ! Suc 0)) \<noteq> tagChar (hd (runs tagChar ''a/ b'' ! 0))"
  using tidyBuildVersionAsTag_replaces_runs [of "''a/ b''"]
  by (simp add: tagChar_def)

text \<open>
  Claim C3. The sanitizer is idempotent: sanitizing a sanitized string changes nothing.
\<close>

theorem tidyBuildVersionAsTag_idempotent:
  "tidyBuildVersionAsTag (tidyBuildVersionAsTag s) = tidyBuildVersionAsTag s"
  by (rule tidy_legal_string) (auto dest: tidy_result_legal)

theorem tidyBuildVersionAsTag_idempotent_witness:
  "tidyBuildVersionAsTag (tidyBuildVersionAsTag ''feature/foo  bar'') = ''feature-foo-bar''"
  using tidyBuildVersionAsTag_idempotent [of "''feature/foo  bar''"]
  by (simp add: tagChar_def)


section \<open>Properties of splitting and joining\<close>

lemma dropWhile_absent: "sep \<notin> set s \<Longrightarrow> dropWhile (\<lambda>c. c \<noteq> sep) s = []"
  by (induction s) auto

lemma takeWhile_absent: "sep \<notin> set s \<Longrightarrow> takeWhile (\<lambda>c. c \<noteq> sep) s = s"
  by (induction s) auto

lemma dropWhile_first:
  "sep \<notin> set a \<Longrightarrow> dropWhile (\<lambda>c. c \<noteq> sep) (a @ sep # b) = sep # b"
  by (induction a) auto

lemma takeWhile_first:
  "sep \<notin> set a \<Longrightarrow> takeWhile (\<lambda>c. c \<noteq> sep) (a @ sep # b) = a"
  by (induction a) auto

lemma Split_no_sep:
  assumes "sep \<notin> set s"
  shows "strings_Split s sep = [s]"
  by (subst strings_Split.simps) (simp only: dropWhile_absent [OF assms] list.case)

lemma Split_sep:
  assumes "sep \<notin> set a"
  shows "strings_Split (a @ sep # b) sep = a # strings_Split b sep"
  by (subst strings_Split.simps)
     (simp only: dropWhile_first [OF assms] takeWhile_first [OF assms] list.case)

lemma sep_cases:
  fixes s :: "'a list"
  obtains (none) "sep \<notin> set s" | (some) a b where "s = a @ sep # b" "sep \<notin> set a"
  by (meson split_list_first)

lemma Split_nonempty: "strings_Split s sep \<noteq> []"
  by (cases rule: sep_cases [of sep s]) (simp_all add: Split_no_sep Split_sep)

lemma Split_hd: "hd (strings_Split s sep) = takeWhile (\<lambda>c. c \<noteq> sep) s"
proof (cases rule: sep_cases [of sep s])
  case none
  show ?thesis by (simp only: Split_no_sep [OF none] takeWhile_absent [OF none] list.sel)
next
  case (some a b)
  show ?thesis
    by (simp only: some(1) Split_sep [OF some(2)] takeWhile_first [OF some(2)] list.sel)
qed

lemma Split_nth0: "strings_Split s sep ! 0 = hd (strings_Split s sep)"
  using Split_nonempty [of s sep] by (simp add: hd_conv_nth)

lemma Split_length: "1 < length (strings_Split s sep) \<longleftrightarrow> sep \<in> set s"
proof (cases rule: sep_cases [of sep s])
  case none
  then show ?thesis by (simp add: Split_no_sep)
next
  case (some a b)
  then show ?thesis using Split_nonempty [of b sep] by (simp add: Split_sep)
qed

lemma Split_length_Suc: "Suc 0 < length (strings_Split s sep) \<longleftrightarrow> sep \<in> set s"
  using Split_length [of s sep] by simp

lemma Join_Cons: "ys \<noteq> [] \<Longrightarrow> strings_Join (x # ys) sep = x @ sep @ strings_Join ys sep"
  by (cases ys) simp_all

lemma Join_Split: "strings_Join (strings_Split s sep) [sep] = s"
proof (induction "length s" arbitrary: s rule: less_induct)
  case less
  show ?case
  proof (cases rule: sep_cases [of sep s])
    case none
    then show ?thesis by (simp add: Split_no_sep)
  next
    case (some a b)
    then have "strings_Join (strings_Split b sep) [sep] = b" using less by simp
    then show ?thesis using some by (simp add: Split_sep Join_Cons Split_nonempty)
  qed
qed

lemma Split_last:
  "sep \<notin> set n \<Longrightarrow> strings_Split (r @ sep # n) sep = strings_Split r sep @ [n]"
proof (induction "length r" arbitrary: r rule: less_induct)
  case less
  show ?case
  proof (cases rule: sep_cases [of sep r])
    case none
    then show ?thesis using less.prems by (simp add: Split_no_sep Split_sep)
  next
    case (some a b)
    then have "strings_Split (b @ sep # n) sep = strings_Split b sep @ [n]"
      using less by simp
    then show ?thesis using some by (simp add: Split_sep)
  qed
qed

lemma repository_of_slash:
  assumes "CHR ''/'' \<notin> set n"
  shows "repository_of (r @ ''/'' @ n) = r"
proof -
  have "CHR ''/'' \<notin> set (rev n)" using assms by simp
  then have "dropWhile (\<lambda>c. c \<noteq> CHR ''/'') (rev n @ CHR ''/'' # rev r) = CHR ''/'' # rev r"
    by (rule dropWhile_first)
  then show ?thesis by (simp add: repository_of_def)
qed

lemma repository_of_none:
  assumes "CHR ''/'' \<notin> set s"
  shows "repository_of s = []"
proof -
  have "CHR ''/'' \<notin> set (rev s)" using assms by simp
  then have "dropWhile (\<lambda>c. c \<noteq> CHR ''/'') (rev s) = []"
    by (rule dropWhile_absent)
  then show ?thesis unfolding repository_of_def by (simp only: drop_Nil rev.simps)
qed

lemma containerRepo_is_repository_of:
  "strings_Join (butlast (strings_Split s (CHR ''/''))) ''/'' = repository_of s"
proof (cases "CHR ''/'' \<in> set s")
  case False
  show ?thesis
    by (simp only: Split_no_sep [OF False] repository_of_none [OF False] butlast.simps
          strings_Join.simps list.simps if_True simp_thms)
next
  case True
  then obtain r n where s: "s = r @ CHR ''/'' # n" and n: "CHR ''/'' \<notin> set n"
    by (meson split_list_last)
  then show ?thesis using Join_Split [of r "CHR ''/''"] repository_of_slash [OF n, of r]
    by (simp add: Split_last)
qed

lemma containerPath_repository:
  "CHR ''/'' \<notin> set c \<Longrightarrow> CHR ''/'' \<notin> set t \<Longrightarrow> repository_of (containerPath r c t) = r"
  using repository_of_slash [of "c @ '':'' @ t" r] by (simp add: containerPath_def)

section \<open>Properties of the credential lookup\<close>

lemma getCredentials_find:
  "getCredentialsForContainer (map Some cs) img =
     Inr (find (\<lambda>c. Repository c = repository_of img) cs)"
  by (induction cs) (auto simp: containerRepo_is_repository_of Let_def)

lemma getCredentials_nil_entry:
  "getCredentialsForContainer (None # ps) img = Inl NilDereference"
  by (simp add: Let_def)

text \<open>
  Claim C4. The repository portion that the lookup computes, the join of all
  slash-separated segments of the image reference but the last, is what stands before the
  last slash of the reference. For every list of credential records the lookup returns the
  first record, in the order of the list, whose repository equals that string exactly; it
  returns none when the list is empty and when no record matches. (Being a function, it is
  deterministic.)
\<close>

theorem getCredentialsForContainer_first_match:
  "getCredentialsForContainer [] img = Inr None
   \<and> strings_Join (butlast (strings_Split img (CHR ''/''))) ''/'' = repository_of img
   \<and> (\<forall>r n. CHR ''/'' \<notin> set n \<longrightarrow> repository_of (r @ ''/'' @ n) = r)
   \<and> (CHR ''/'' \<notin> set img \<longrightarrow> repository_of img = '''')
   \<and> getCredentialsForContainer (map Some cs) img =
       Inr (find (\<lambda>c. Repository c = repository_of img) cs)
   \<and> (getCredentialsForContainer (map Some cs) img = Inr None \<longleftrightarrow>
        (\<forall>c\<in>set cs. Repository c \<noteq> repository_of img))
   \<and> (\<forall>c. getCredentialsForContainer (map Some cs) img = Inr (Some c) \<longleftrightarrow>
        (\<exists>i<length cs. cs ! i = c \<and> Repository c = repository_of img \<and>
           (\<forall>j<i. Repository (cs ! j) \<noteq> repository_of img)))"
proof (intro conjI)
  show "getCredentialsForContainer [] img = Inr None"
    by simp
  show "strings_Join (butlast (strings_Split img (CHR ''/''))) ''/'' = repository_of img"
    by (rule containerRepo_is_repository_of)
  show "\<forall>r n. CHR ''/'' \<notin> set n \<longrightarrow> repository_of (r @ ''/'' @ n) = r"
    by (intro allI impI) (erule repository_of_slash)
  show "CHR ''/'' \<notin> set img \<longrightarrow> repository_of img = ''''"
    by (intro impI) (erule repository_of_none)
  show "getCredentialsForContainer (map Some cs) img =
       Inr (find (\<lambda>c. Repository c = repository_of img) cs)"
    by (rule getCredentials_find)
  show "getCredentialsForContainer (map Some cs) img = Inr None \<longleftrightarrow>
        (\<forall>c\<in>set cs. Repository c \<noteq> repository_of img)"
    by (auto simp: getCredentials_find find_None_iff)
  show "\<forall>c. getCredentialsForContainer (map Some cs) img = Inr (Some c) \<longleftrightarrow>
        (\<exists>i<length cs. cs ! i = c \<and> Repository c = repository_of img \<and>
           (\<forall>j<i. Repository (cs ! j) \<noteq> repository_of img))"
    unfolding getCredentials_find sum.inject find_Some_iff by auto
qed

theorem getCredentialsForContainer_first_match_witness:
  "getCredentialsForContainer
     (map Some [\<lparr>Repository = ''docker.io/estafette'', Username = ''u1'', Password = ''p1''\<rparr>,
                \<lparr>Repository = ''docker.io/estafette'', Username = ''u2'', Password = ''p2''\<rparr>])
     ''docker.io/estafette/app:1.0'' =
     Inr (Some \<lparr>Repository = ''docker.io/estafette'', Username = ''u1'', Password = ''p1''\<rparr>)
   \<and> repository_of ''docker.io/estafette/app:1.0'' = ''docker.io/estafette''
   \<and> getCredentialsForContainer
     (map Some [\<lparr>Repository = ''docker.io/estafette'', Username = ''u1'', Password = ''p1''\<rparr>])
     ''docker.io/other/app:1.0'' = Inr None"
  using getCredentialsForContainer_first_match
    [of "''docker.io/estafette/app:1.0''"
        "[\<lparr>Repository = ''docker.io/estafette'', Username = ''u1'', Password = ''p1''\<rparr>,
          \<lparr>Repository = ''docker.io/estafette'', Username = ''u2'', Password = ''p2''\<rparr>]"]
    getCredentialsForContainer_first_match
    [of "''docker.io/other/app:1.0''"
        "[\<lparr>Repository = ''docker.io/estafette'', Username = ''u1'', Password = ''p1''\<rparr>]"]
  by (simp add: repository_of_def)

section \<open>Properties of the login\<close>

lemma login_arguments:
  "(let loginArgs = [''login'', ''--username'', Username c, ''--password'', Password c];
        repositorySlice = strings_Split (Repository c) (CHR ''/'');
        loginArgs = (if length repositorySlice > 1
                     then loginArgs @ [repositorySlice ! 0] else loginArgs)
    in execCommand w (Command ''docker'' loginArgs '''')) = execCommand w (login_command c)"
  by (simp add: Let_def login_command_def Split_length_Suc Split_nth0 Split_hd)

lemma loginIfRequired_None:
  assumes "getCredentialsForContainer credentials img = Inr None"
  shows "loginIfRequired w credentials img = skip"
  unfolding loginIfRequired_def by (simp only: assms sum.case option.case)

lemma loginIfRequired_Some:
  assumes "getCredentialsForContainer credentials img = Inr (Some c)"
  shows "loginIfRequired w credentials img = execCommand w (login_command c)"
  unfolding loginIfRequired_def by (simp only: assms sum.case option.case login_arguments)

lemma loginIfRequired_Inl:
  assumes "getCredentialsForContainer credentials img = Inl e"
  shows "loginIfRequired w credentials img = abort e"
  unfolding loginIfRequired_def by (simp only: assms sum.case)

lemma seq_skip_right: "seq p skip = p"
  by (rule ext) (simp add: seq_def skip_def split: prod.splits option.splits)

lemma seq_skip_left: "seq skip p = p"
  by (rule ext) (simp add: seq_def skip_def)

lemma seq_abort: "seq (abort e) p = abort e"
  by (rule ext) (simp add: seq_def abort_def)

lemma seq_assoc: "seq (seq p q) r = seq p (seq q r)"
  by (rule ext) (simp add: seq_def split: prod.splits option.splits)

lemma loginIfRequired_execute:
  "loginIfRequired w credentials img = execute w (login_step credentials img)"
proof (cases "getCredentialsForContainer credentials img")
  case (Inl e)
  then show ?thesis by (simp add: loginIfRequired_Inl login_step_def)
next
  case (Inr r)
  show ?thesis
  proof (cases r)
    case None
    with Inr show ?thesis by (simp add: loginIfRequired_None login_step_def)
  next
    case (Some c)
    with Inr show ?thesis by (simp add: loginIfRequired_Some login_step_def seq_skip_right)
  qed
qed


text \<open>
  Claim C5. When no credential matches the image reference, \<open>loginIfRequired\<close> does
  nothing. When the record \<open>c\<close> matches, it runs one command, \<^verbatim>\<open>docker login\<close> with the
  record's username and password; the first slash-delimited segment of the record's
  repository is appended as the registry host exactly when the repository has more than
  one segment, that is, when it contains a slash.
\<close>

theorem loginIfRequired_login:
  "(getCredentialsForContainer credentials img = Inr None \<longrightarrow>
      loginIfRequired w credentials img tr = (None, tr))
   \<and> (getCredentialsForContainer credentials img = Inr (Some c) \<longrightarrow>
        (\<exists>login. loginIfRequired w credentials img tr =
             (if w tr login then None else Some (CommandFailed login), tr @ [login])
           \<and> cmd_name login = ''docker''
           \<and> cmd_args login =
               [''login'', ''--username'', Username c, ''--password'', Password c] @
               (if 1 < length (strings_Split (Repository c) (CHR ''/''))
                then [hd (strings_Split (Repository c) (CHR ''/''))] else [])))
   \<and> (1 < length (strings_Split (Repository c) (CHR ''/'')) \<longleftrightarrow>
        CHR ''/'' \<in> set (Repository c))
   \<and> hd (strings_Split (Repository c) (CHR ''/'')) =
        takeWhile (\<lambda>x. x \<noteq> CHR ''/'') (Repository c)"
proof (intro conjI impI)
  assume "getCredentialsForContainer credentials img = Inr None"
  then show "loginIfRequired w credentials img tr = (None, tr)"
    by (simp add: loginIfRequired_None skip_def)
next
  assume m: "getCredentialsForContainer credentials img = Inr (Some c)"
  let ?login = "login_command c"
  have run: "loginIfRequired w credentials img tr =
      (if w tr ?login then None else Some (CommandFailed ?login), tr @ [?login])"
    by (simp only: loginIfRequired_Some [OF m] execCommand_def)
  have name: "cmd_name ?login = ''docker''"
    by (simp add: login_command_def)
  have arguments: "cmd_args ?login =
      [''login'', ''--username'', Username c, ''--password'', Password c] @
      (if 1 < length (strings_Split (Repository c) (CHR ''/''))
       then [hd (strings_Split (Repository c) (CHR ''/''))] else [])"
    by (simp add: login_command_def Split_length_Suc Split_hd)
  from run name arguments
  show "\<exists>login. loginIfRequired w credentials img tr =
             (if w tr login then None else Some (CommandFailed login), tr @ [login])
           \<and> cmd_name login = ''docker''
           \<and> cmd_args login =
               [''login'', ''--username'', Username c, ''--password'', Password c] @
               (if 1 < length (strings_Split (Repository c) (CHR ''/''))
                then [hd (strings_Split (Repository c) (CHR ''/''))] else [])"
    by (intro exI [of _ ?login] conjI)
next
  show "1 < length (strings_Split (Repository c) (CHR ''/'')) \<longleftrightarrow>
        CHR ''/'' \<in> set (Repository c)"
    by (rule Split_length)
next
  show "hd (strings_Split (Repository c) (CHR ''/'')) =
        takeWhile (\<lambda>x. x \<noteq> CHR ''/'') (Repository c)"
    by (rule Split_hd)
qed

lemma example_credentials_match:
  "getCredentialsForContainer
     [Some \<lparr>Repository = ''docker.io/estafette'', Username = ''u'', Password = ''p''\<rparr>]
     ''docker.io/estafette/app:1.0'' =
   Inr (Some \<lparr>Repository = ''docker.io/estafette'', Username = ''u'', Password = ''p''\<rparr>)"
  using getCredentials_find
    [of "[\<lparr>Repository = ''docker.io/estafette'', Username = ''u'', Password = ''p''\<rparr>]"
        "''docker.io/estafette/app:1.0''"]
  by (simp add: repository_of_def)

lemma example_credentials_other:
  "getCredentialsForContainer
     [Some \<lparr>Repository = ''docker.io/estafette'', Username = ''u'', Password = ''p''\<rparr>]
     ''docker.io/other/app:1.0'' = Inr None"
  using getCredentials_find
    [of "[\<lparr>Repository = ''docker.io/estafette'', Username = ''u'', Password = ''p''\<rparr>]"
        "''docker.io/other/app:1.0''"]
  by (simp add: repository_of_def)

theorem loginIfRequired_login_witness:
  "loginIfRequired all_succeed
     [Some \<lparr>Repository = ''docker.io/estafette'', Username = ''u'', Password = ''p''\<rparr>]
     ''docker.io/other/app:1.0'' [] = (None, [])
   \<and> (\<exists>login. loginIfRequired all_succeed
         [Some \<lparr>Repository = ''docker.io/estafette'', Username = ''u'', Password = ''p''\<rparr>]
         ''docker.io/estafette/app:1.0'' [] = (None, [login])
        \<and> cmd_name login = ''docker''
        \<and> cmd_args login =
            [''login'', ''--username'', ''u'', ''--password'', ''p'', ''docker.io''])"
proof -
  let ?c = "\<lparr>Repository = ''docker.io/estafette'', Username = ''u'', Password = ''p''\<rparr>"
  have split: "strings_Split ''docker.io/estafette'' (CHR ''/'') = [''docker.io'', ''estafette'']"
    using Split_sep [of "CHR ''/''" "''docker.io''" "''estafette''"]
          Split_no_sep [of "CHR ''/''" "''estafette''"] by simp
  have none: "loginIfRequired all_succeed [Some ?c] ''docker.io/other/app:1.0'' [] = (None, [])"
    using conjunct1 [OF loginIfRequired_login
        [of "[Some ?c]" "''docker.io/other/app:1.0''" all_succeed "[]" ?c]]
      example_credentials_other
    by (rule mp)
  have "\<exists>login. loginIfRequired all_succeed [Some ?c] ''docker.io/estafette/app:1.0'' [] =
             (if all_succeed [] login then None else Some (CommandFailed login), [] @ [login])
           \<and> cmd_name login = ''docker''
           \<and> cmd_args login =
               [''login'', ''--username'', Username ?c, ''--password'', Password ?c] @
               (if 1 < length (strings_Split (Repository ?c) (CHR ''/''))
                then [hd (strings_Split (Repository ?c) (CHR ''/''))] else [])"
    using conjunct1 [OF conjunct2 [OF loginIfRequired_login
        [of "[Some ?c]" "''docker.io/estafette/app:1.0''" all_succeed "[]" ?c]]]
      example_credentials_match
    by (rule mp)
  then have "\<exists>login. loginIfRequired all_succeed [Some ?c] ''docker.io/estafette/app:1.0'' [] =
             (None, [login])
        \<and> cmd_name login = ''docker''
        \<and> cmd_args login =
            [''login'', ''--username'', ''u'', ''--password'', ''p'', ''docker.io'']"
    by (simp add: all_succeed_def split)
  with none show ?thesis
    by (rule conjI)
qed


section \<open>Runs and plans\<close>

lemma execute_append: "execute w (xs @ ys) = seq (execute w xs) (execute w ys)"
proof (induction xs)
  case Nil
  then show ?case by (simp add: seq_skip_left)
next
  case (Cons s xs)
  then show ?case by (cases s) (simp_all add: seq_assoc seq_abort)
qed

lemma execute_Do: "execute w [Do c] = execCommand w c"
  by (simp add: seq_skip_right)

lemma runCommand_execute:
  "runCommand w cmd arguments = execute w [Do (Command cmd arguments ''/estafette-work'')]"
  by (simp add: runCommand_def seq_skip_right)

lemma foreach_execute:
  "(\<And>x. x \<in> set xs \<Longrightarrow> body x = execute w (plan x)) \<Longrightarrow>
   foreach xs body = execute w (concat (map plan xs))"
  by (induction xs) (simp_all add: execute_append)

lemma publish_execute:
  "seq (runCommand w ''docker'' [''tag'', source, containerPath r c t])
     (seq (loginIfRequired w credentials (containerPath r c t))
        (runCommand w ''docker'' [''push'', containerPath r c t])) =
   execute w (publish_step credentials source r c t)"
  by (simp add: publish_step_def execute_append runCommand_execute loginIfRequired_execute
        docker_run_def seq_skip_right)

lemma publish_loop:
  "foreach tgs (\<lambda>t.
     seq (runCommand w ''docker'' [''tag'', source, containerPath r c t])
       (seq (loginIfRequired w credentials (containerPath r c t))
          (runCommand w ''docker'' [''push'', containerPath r c t]))) =
   execute w (concat (map (publish_step credentials source r c) tgs))"
  by (rule foreach_execute) (rule publish_execute)

lemma push_body:
  "seq (if i > 0
        then execCommand w (Command ''docker'' [''tag'', source, containerPath r c v] '''')
        else skip)
     (seq (loginIfRequired w credentials (containerPath r c v))
     (seq (runCommand w ''docker'' [''push'', containerPath r c v])
       (execute w (concat (map (publish_step credentials source r c) tgs))))) =
   execute w
     ((if 0 < i then [Do (Command ''docker'' [''tag'', source, containerPath r c v] [])]
       else []) @
      login_step credentials (containerPath r c v) @
      [Do (docker_run [''push'', containerPath r c v])] @
      concat (map (publish_step credentials source r c) tgs))"
  by (simp add: execute_append runCommand_execute loginIfRequired_execute docker_run_def
        seq_skip_left seq_skip_right)

lemma pushAction_execute:
  "pushAction w credentials (r0 # rs) c tgs v =
     execute w (push_plan credentials (r0 # rs) c tgs v)"
  unfolding pushAction_def push_plan_def list.case Let_def list.sel publish_loop
  by (rule foreach_execute) (simp add: push_body split: prod.splits)

lemma tag_body:
  "seq (if i > 0
        then seq (runCommand w ''docker'' [''tag'', source, containerPath r c v])
               (seq (loginIfRequired w credentials (containerPath r c v))
                  (runCommand w ''docker'' [''push'', containerPath r c v]))
        else skip)
     (execute w (concat (map (publish_step credentials source r c) tgs))) =
   execute w
     ((if 0 < i then publish_step credentials source r c v else []) @
      concat (map (publish_step credentials source r c) tgs))"
  by (simp add: execute_append publish_execute seq_skip_left)

lemma tagAction_execute:
  "tagAction w credentials (r0 # rs) c tgs v =
     execute w (tag_plan credentials (r0 # rs) c tgs v)"
proof -
  have "foreach (enumerate 0 (r0 # rs)) (\<lambda>(i, r).
          seq (if i > 0
               then seq (runCommand w ''docker''
                          [''tag'', containerPath r0 c v, containerPath r c v])
                      (seq (loginIfRequired w credentials (containerPath r c v))
                        (runCommand w ''docker'' [''push'', containerPath r c v]))
               else skip)
            (execute w
               (concat (map (publish_step credentials (containerPath r0 c v) r c) tgs)))) =
        execute w (concat (map (\<lambda>(i, r).
           (if 0 < i then publish_step credentials (containerPath r0 c v) r c v else []) @
           concat (map (publish_step credentials (containerPath r0 c v) r c) tgs))
         (enumerate 0 (r0 # rs))))"
    by (rule foreach_execute) (simp add: tag_body split: prod.splits)
  then show ?thesis
    unfolding tagAction_def tag_plan_def list.case Let_def list.sel publish_loop
    by (simp only: execute_append runCommand_execute loginIfRequired_execute docker_run_def)
qed


section \<open>The build arguments\<close>

lemma foldl_append: "foldl (\<lambda>acc x. acc @ f x) acc xs = acc @ concat (map f xs)"
  by (induction xs arbitrary: acc) simp_all

lemma concat_product:
  "concat (map (\<lambda>(x, y). f x y) (List.product xs ys)) =
   concat (map (\<lambda>x. concat (map (f x) ys)) xs)"
  by (induction xs) (simp_all add: comp_def)

lemma buildArgs_build_arguments:
  "buildArgs getenv repos c tgs names dir file v =
   build_arguments getenv repos c tgs names dir file v"
proof -
  have inner: "\<And>acc r.
      foldl (\<lambda>args t. args @ [''--tag'', containerPath r c t])
        (acc @ [''--tag'', containerPath r c v]) tgs =
      acc @ concat (map (\<lambda>t. [''--tag'', containerPath r c t]) (v # tgs))"
    by (simp add: foldl_append [where f = "\<lambda>t. [''--tag'', containerPath r c t]" for r])
  have outer: "\<And>acc.
      foldl (\<lambda>args r. args @ concat (map (\<lambda>t. [''--tag'', containerPath r c t]) (v # tgs)))
        acc repos =
      acc @ concat (map (\<lambda>r. concat (map (\<lambda>t. [''--tag'', containerPath r c t]) (v # tgs)))
                      repos)"
    by (rule foldl_append)
  have third: "\<And>acc.
      foldl (\<lambda>args a. args @ [''--build-arg'', a @ ''='' @ getenv a]) acc names =
      acc @ concat (map (\<lambda>a. [''--build-arg'', a @ ''='' @ getenv a]) names)"
    by (rule foldl_append)
  show ?thesis
    unfolding buildArgs_def build_arguments_def Let_def inner outer third concat_product
    by (simp only: append_assoc)
qed

lemma contains_set: "contains vs val \<longleftrightarrow> val \<in> set vs"
  by (induction vs) auto

lemma copy_loop:
  "foreach copies (\<lambda>f. runCommand w ''cp'' [''-r'', f, dir]) =
   execute w (map (\<lambda>f. Do (Command ''cp'' [''-r'', f, dir] ''/estafette-work'')) copies)"
  using foreach_execute
    [of copies "\<lambda>f. runCommand w ''cp'' [''-r'', f, dir]" w
        "\<lambda>f. [Do (Command ''cp'' [''-r'', f, dir] ''/estafette-work'')]"]
  by (simp add: runCommand_execute)

lemma buildAction_execute:
  "buildAction w getenv credentials (r0 # rs) c tgs dir file copies names v =
     execute w (build_plan getenv credentials (r0 # rs) c tgs dir file copies names v)"
  unfolding buildAction_def build_plan_def list.case Let_def list.sel copy_loop
    buildArgs_build_arguments contains_set
  by (simp only: execute_append runCommand_execute loginIfRequired_execute docker_run_def)

section \<open>What a run leaves in the trace\<close>

lemma execute_trace:
  "\<exists>ran. snd (execute w plan tr) = tr @ ran \<and> prefix ran (commands plan)"
proof (induction plan arbitrary: tr)
  case Nil
  then show ?case by (simp add: skip_def)
next
  case (Cons s plan)
  show ?case
  proof (cases s)
    case (Do c)
    show ?thesis
    proof (cases "w tr c")
      case True
      from Cons [of "tr @ [c]"] obtain ran
        where "snd (execute w plan (tr @ [c])) = (tr @ [c]) @ ran" "prefix ran (commands plan)"
        by blast
      with True Do show ?thesis
        by (intro exI [of _ "c # ran"]) (simp add: seq_def execCommand_def)
    next
      case False
      with Do show ?thesis
        by (intro exI [of _ "[c]"]) (simp add: seq_def execCommand_def)
    qed
  next
    case (Stop e)
    then show ?thesis by (simp add: abort_def)
  qed
qed

lemma execute_complete:
  "fst (execute w plan tr) = None \<Longrightarrow> snd (execute w plan tr) = tr @ commands plan"
proof (induction plan arbitrary: tr)
  case Nil
  then show ?case by (simp add: skip_def)
next
  case (Cons s plan)
  show ?case
  proof (cases s)
    case (Do c)
    with Cons.prems have "w tr c"
      by (auto simp: seq_def execCommand_def split: if_splits)
    with Cons Do show ?thesis
      by (simp add: seq_def execCommand_def)
  next
    case (Stop e)
    with Cons.prems show ?thesis by (simp add: abort_def)
  qed
qed

lemma execute_all_succeed:
  "(\<forall>e. Stop e \<notin> set plan) \<Longrightarrow> execute all_succeed plan tr = (None, tr @ commands plan)"
proof (induction plan arbitrary: tr)
  case Nil
  then show ?case by (simp add: skip_def)
next
  case (Cons s plan)
  then show ?case
    by (cases s) (auto simp: seq_def execCommand_def all_succeed_def)
qed

lemma commands_append: "commands (xs @ ys) = commands xs @ commands ys"
  by (induction xs rule: commands.induct) simp_all

lemma commands_concat: "commands (concat xss) = concat (map commands xss)"
  by (induction xss) (simp_all add: commands_append)

lemma commands_map_Do: "commands (map Do cs) = cs"
  by (induction cs) simp_all

lemma commands_login_step:
  "x \<in> set (commands (login_step credentials img)) \<Longrightarrow> docker_op ''login'' x"
  by (auto simp: login_step_def login_command_def docker_op_def
      split: sum.splits option.splits)

lemma login_step_records: "Stop e \<notin> set (login_step (map Some cs) img)"
  by (auto simp: login_step_def getCredentials_find split: option.splits)

lemma login_step_empty: "login_step [] img = []"
  by (simp add: login_step_def)

section \<open>The push action\<close>

lemma no_login_in_login_step:
  "filter (\<lambda>x. \<not> docker_op ''login'' x) (commands (login_step credentials img)) = []"
  using commands_login_step [of _ credentials img] by (auto simp: filter_empty_conv)

lemma login_step_docker:
  "x \<in> set (commands (login_step credentials img)) \<Longrightarrow> cmd_name x = ''docker''"
  using commands_login_step [of x credentials img] by (simp add: docker_op_def)

lemma docker_op_docker_run:
  "docker_op name (docker_run arguments) \<longleftrightarrow> take 1 arguments = [name]"
  by (simp add: docker_op_def docker_run_def)

lemma docker_op_Command:
  "docker_op name (Command cmd arguments dir) \<longleftrightarrow>
     cmd = ''docker'' \<and> take 1 arguments = [name]"
  by (simp add: docker_op_def)

lemma cmd_args_docker_run: "cmd_args (docker_run arguments) = arguments"
  by (simp add: docker_run_def)

lemma cmd_name_docker_run: "cmd_name (docker_run arguments) = ''docker''"
  by (simp add: docker_run_def)

lemma push_example_plan:
  "push_plan credentials [''a'', ''b''] ''app'' [''dev''] ''1.0'' =
     login_step credentials ''a/app:1.0'' @
     [Do (docker_run [''push'', ''a/app:1.0''])] @
     [Do (docker_run [''tag'', ''a/app:1.0'', ''a/app:dev''])] @
     login_step credentials ''a/app:dev'' @
     [Do (docker_run [''push'', ''a/app:dev''])] @
     [Do (Command ''docker'' [''tag'', ''a/app:1.0'', ''b/app:1.0''] [])] @
     login_step credentials ''b/app:1.0'' @
     [Do (docker_run [''push'', ''b/app:1.0''])] @
     [Do (docker_run [''tag'', ''a/app:1.0'', ''b/app:dev''])] @
     login_step credentials ''b/app:dev'' @
     [Do (docker_run [''push'', ''b/app:dev''])]"
  by (simp add: push_plan_def publish_step_def containerPath_def Let_def)

lemma push_example_run:
  "pushAction all_succeed [] [''a'', ''b''] ''app'' [''dev''] ''1.0'' [] =
     (None,
      [docker_run [''push'', ''a/app:1.0''],
       docker_run [''tag'', ''a/app:1.0'', ''a/app:dev''],
       docker_run [''push'', ''a/app:dev''],
       Command ''docker'' [''tag'', ''a/app:1.0'', ''b/app:1.0''] [],
       docker_run [''push'', ''b/app:1.0''],
       docker_run [''tag'', ''a/app:1.0'', ''b/app:dev''],
       docker_run [''push'', ''b/app:dev'']])"
  by (simp add: pushAction_def loginIfRequired_def runCommand_def execCommand_def seq_def
      skip_def all_succeed_def containerPath_def docker_run_def Let_def)

text \<open>
  Claim C1, as amended. For the push action with the repositories \<^verbatim>\<open>a\<close> and \<^verbatim>\<open>b\<close>, the
  tag \<^verbatim>\<open>dev\<close>, the container \<^verbatim>\<open>app\<close> and the default tag \<^verbatim>\<open>1.0\<close>, a run that reaches
  its end has issued, logins apart, exactly: push a/app:1.0, tag a/app:1.0 as a/app:dev,
  push a/app:dev, tag a/app:1.0 as b/app:1.0, push b/app:1.0, tag a/app:1.0 as b/app:dev,
  push b/app:dev. The repositories are served in the order of the list; repository \<^verbatim>\<open>a\<close>
  (index 0) is pushed under the default tag without a tag operation before it, and its
  explicit tag is set locally before it is pushed. When every command succeeds and the
  credentials are records, the run reaches its end.
\<close>

theorem push_example_sequence:
  "(pushAction w credentials [''a'', ''b''] ''app'' [''dev''] ''1.0'' [] = (None, tr) \<longrightarrow>
      map cmd_args (filter (\<lambda>x. \<not> docker_op ''login'' x) tr) =
        [[''push'', ''a/app:1.0''],
         [''tag'', ''a/app:1.0'', ''a/app:dev''],
         [''push'', ''a/app:dev''],
         [''tag'', ''a/app:1.0'', ''b/app:1.0''],
         [''push'', ''b/app:1.0''],
         [''tag'', ''a/app:1.0'', ''b/app:dev''],
         [''push'', ''b/app:dev'']]
      \<and> (\<forall>x\<in>set tr. cmd_name x = ''docker''))
   \<and> fst (pushAction all_succeed (map Some cs) [''a'', ''b''] ''app'' [''dev''] ''1.0'' []) = None"
proof (intro conjI impI)
  assume run: "pushAction w credentials [''a'', ''b''] ''app'' [''dev''] ''1.0'' [] = (None, tr)"
  let ?plan = "push_plan credentials [''a'', ''b''] ''app'' [''dev''] ''1.0''"
  have "execute w ?plan [] = (None, tr)"
    using run by (simp only: pushAction_execute)
  then have tr: "tr = commands ?plan"
    using execute_complete [of w ?plan "[]"] by simp
  show "map cmd_args (filter (\<lambda>x. \<not> docker_op ''login'' x) tr) =
        [[''push'', ''a/app:1.0''],
         [''tag'', ''a/app:1.0'', ''a/app:dev''],
         [''push'', ''a/app:dev''],
         [''tag'', ''a/app:1.0'', ''b/app:1.0''],
         [''push'', ''b/app:1.0''],
         [''tag'', ''a/app:1.0'', ''b/app:dev''],
         [''push'', ''b/app:dev'']]"
    unfolding tr push_example_plan
    by (simp add: commands_append no_login_in_login_step docker_op_docker_run
          docker_op_Command cmd_args_docker_run)
  show "\<forall>x\<in>set tr. cmd_name x = ''docker''"
    unfolding tr push_example_plan
    by (auto simp: commands_append docker_run_def dest: login_step_docker)
next
  have "\<forall>e. Stop e \<notin> set (push_plan (map Some cs) [''a'', ''b''] ''app'' [''dev''] ''1.0'')"
    unfolding push_example_plan by (simp add: login_step_records)
  then show "fst (pushAction all_succeed (map Some cs) [''a'', ''b''] ''app'' [''dev''] ''1.0'' [])
      = None"
    using execute_all_succeed
      [of "push_plan (map Some cs) [''a'', ''b''] ''app'' [''dev''] ''1.0''" "[]"]
    by (simp add: pushAction_execute)
qed

theorem push_example_sequence_witness:
  "pushAction all_succeed [] [''a'', ''b''] ''app'' [''dev''] ''1.0'' [] =
     (None,
      [docker_run [''push'', ''a/app:1.0''],
       docker_run [''tag'', ''a/app:1.0'', ''a/app:dev''],
       docker_run [''push'', ''a/app:dev''],
       Command ''docker'' [''tag'', ''a/app:1.0'', ''b/app:1.0''] [],
       docker_run [''push'', ''b/app:1.0''],
       docker_run [''tag'', ''a/app:1.0'', ''b/app:dev''],
       docker_run [''push'', ''b/app:dev'']])
   \<and> map cmd_args (filter (\<lambda>x. \<not> docker_op ''login'' x)
       [docker_run [''push'', ''a/app:1.0''],
        docker_run [''tag'', ''a/app:1.0'', ''a/app:dev''],
        docker_run [''push'', ''a/app:dev''],
        Command ''docker'' [''tag'', ''a/app:1.0'', ''b/app:1.0''] [],
        docker_run [''push'', ''b/app:1.0''],
        docker_run [''tag'', ''a/app:1.0'', ''b/app:dev''],
        docker_run [''push'', ''b/app:dev'']]) =
        [[''push'', ''a/app:1.0''],
         [''tag'', ''a/app:1.0'', ''a/app:dev''],
         [''push'', ''a/app:dev''],
         [''tag'', ''a/app:1.0'', ''b/app:1.0''],
         [''push'', ''b/app:1.0''],
         [''tag'', ''a/app:1.0'', ''b/app:dev''],
         [''push'', ''b/app:dev'']]"
  using push_example_sequence
    [of all_succeed "[]"
        "[docker_run [''push'', ''a/app:1.0''],
          docker_run [''tag'', ''a/app:1.0'', ''a/app:dev''],
          docker_run [''push'', ''a/app:dev''],
          Command ''docker'' [''tag'', ''a/app:1.0'', ''b/app:1.0''] [],
          docker_run [''push'', ''b/app:1.0''],
          docker_run [''tag'', ''a/app:1.0'', ''b/app:dev''],
          docker_run [''push'', ''b/app:dev'']]" "[]"]
    push_example_run
  by simp

text \<open>
  Claim C1 as stated fails: without credentials and with every command succeeding, the
  operations issued are not the sequence that starts with repository \<^verbatim>\<open>b\<close>, and the tag
  operation from a/app:1.0 to a/app:dev is among them.
\<close>

theorem push_example_claimed_order_counterexample:
  "map cmd_args (snd (pushAction all_succeed [] [''a'', ''b''] ''app'' [''dev''] ''1.0'' [])) \<noteq>
     [[''tag'', ''a/app:1.0'', ''b/app:1.0''],
      [''push'', ''b/app:1.0''],
      [''tag'', ''a/app:1.0'', ''b/app:dev''],
      [''push'', ''b/app:dev''],
      [''push'', ''a/app:1.0''],
      [''push'', ''a/app:dev'']]
   \<and> [''tag'', ''a/app:1.0'', ''a/app:dev''] \<in>
       set (map cmd_args
             (snd (pushAction all_succeed [] [''a'', ''b''] ''app'' [''dev''] ''1.0'' [])))"
  by (simp add: push_example_run docker_run_def)


section \<open>The tag action\<close>

lemma execute_trace_prefix: "prefix (snd (execute w plan [])) (commands plan)"
  using execute_trace [of w plan "[]"] by auto

lemma marked_before_first:
  assumes "prefix tr (A @ p # B)" and "\<forall>x\<in>set A. \<not> Q x" and "\<not> Q p" and "\<exists>x\<in>set tr. Q x"
  shows "p \<in> set (takeWhile (\<lambda>x. \<not> Q x) tr)"
proof -
  from assms(1) consider "prefix tr A" | us where "tr = A @ us" "prefix us (p # B)"
    by (auto simp: prefix_append)
  then show ?thesis
  proof cases
    case 1
    then have "set tr \<subseteq> set A" by (rule set_mono_prefix)
    with assms(2,4) show ?thesis by blast
  next
    case 2
    show ?thesis
    proof (cases us)
      case Nil
      with 2 assms(2,4) show ?thesis by auto
    next
      case (Cons u us')
      with 2 have "u = p" by simp
      with 2 Cons assms(2,3) show ?thesis by simp
    qed
  qed
qed

lemma tag_plan_unfold:
  "tag_plan credentials (r0 # rs) c tgs v =
     login_step credentials (containerPath r0 c v) @
     [Do (docker_run [''pull'', containerPath r0 c v])] @
     concat (map (\<lambda>(i, r).
       (if 0 < i then publish_step credentials (containerPath r0 c v) r c v else []) @
       concat (map (publish_step credentials (containerPath r0 c v) r c) tgs))
     (enumerate 0 (r0 # rs)))"
  by (simp add: tag_plan_def Let_def)

lemma login_not_tag_push:
  "docker_op ''login'' x \<Longrightarrow> \<not> (docker_op ''tag'' x \<or> docker_op ''push'' x)"
  by (auto simp: docker_op_def)

text \<open>
  Claim C6. The tag action is the run of this plan: log in if required for the source image
  (the first repository with the container name and the default tag), pull the source
  image, then for every repository in order: tag the source with the default tag and push
  it, for the repositories at an index above 0 only, and tag and push every explicit tag.
  In every run, whatever fails, the pull of the source image stands in the trace before the
  first tag or push command; a run that reaches its end has issued the whole plan.
\<close>

theorem tagAction_pull_first:
  "tagAction w credentials (r0 # rs) c tgs v =
     execute w
       (login_step credentials (containerPath r0 c v) @
        [Do (docker_run [''pull'', containerPath r0 c v])] @
        concat (map (\<lambda>(i, r).
          (if 0 < i then publish_step credentials (containerPath r0 c v) r c v else []) @
          concat (map (publish_step credentials (containerPath r0 c v) r c) tgs))
        (enumerate 0 (r0 # rs))))
   \<and> ((\<exists>x\<in>set (snd (tagAction w credentials (r0 # rs) c tgs v [])).
          docker_op ''tag'' x \<or> docker_op ''push'' x) \<longrightarrow>
        docker_run [''pull'', containerPath r0 c v] \<in>
          set (takeWhile (\<lambda>x. \<not> (docker_op ''tag'' x \<or> docker_op ''push'' x))
                 (snd (tagAction w credentials (r0 # rs) c tgs v []))))
   \<and> (fst (tagAction w credentials (r0 # rs) c tgs v []) = None \<longrightarrow>
        snd (tagAction w credentials (r0 # rs) c tgs v []) =
          commands (login_step credentials (containerPath r0 c v)) @
          docker_run [''pull'', containerPath r0 c v] #
          commands (concat (map (\<lambda>(i, r).
            (if 0 < i then publish_step credentials (containerPath r0 c v) r c v else []) @
            concat (map (publish_step credentials (containerPath r0 c v) r c) tgs))
          (enumerate 0 (r0 # rs)))))"
proof (intro conjI impI)
  let ?src = "containerPath r0 c v"
  let ?fan = "concat (map (\<lambda>(i, r).
          (if 0 < i then publish_step credentials ?src r c v else []) @
          concat (map (publish_step credentials ?src r c) tgs))
        (enumerate 0 (r0 # rs)))"
  let ?tr = "snd (tagAction w credentials (r0 # rs) c tgs v [])"
  show run: "tagAction w credentials (r0 # rs) c tgs v =
     execute w (login_step credentials ?src @ [Do (docker_run [''pull'', ?src])] @ ?fan)"
    by (simp only: tagAction_execute tag_plan_unfold)
  have pre: "prefix ?tr
      (commands (login_step credentials ?src) @ docker_run [''pull'', ?src] # commands ?fan)"
    using execute_trace_prefix
      [of w "login_step credentials ?src @ [Do (docker_run [''pull'', ?src])] @ ?fan"]
    by (simp add: run commands_append)
  {
    assume ex: "\<exists>x\<in>set ?tr. docker_op ''tag'' x \<or> docker_op ''push'' x"
    have logins: "\<forall>x\<in>set (commands (login_step credentials ?src)).
        \<not> (docker_op ''tag'' x \<or> docker_op ''push'' x)"
      using commands_login_step login_not_tag_push by blast
    have pull: "\<not> (docker_op ''tag'' (docker_run [''pull'', ?src]) \<or>
        docker_op ''push'' (docker_run [''pull'', ?src]))"
      by (simp add: docker_op_docker_run)
    show "docker_run [''pull'', ?src] \<in>
          set (takeWhile (\<lambda>x. \<not> (docker_op ''tag'' x \<or> docker_op ''push'' x)) ?tr)"
      using pre logins pull ex by (rule marked_before_first)
  }
  {
    assume "fst (tagAction w credentials (r0 # rs) c tgs v []) = None"
    then show "?tr = commands (login_step credentials ?src) @
          docker_run [''pull'', ?src] # commands ?fan"
      using execute_complete
        [of w "login_step credentials ?src @ [Do (docker_run [''pull'', ?src])] @ ?fan" "[]"]
      by (simp add: run commands_append)
  }
qed


lemma tag_example_run:
  "tagAction all_succeed [] [''a'', ''b''] ''app'' [''dev''] ''1.0'' [] =
     (None,
      [docker_run [''pull'', ''a/app:1.0''],
       docker_run [''tag'', ''a/app:1.0'', ''a/app:dev''],
       docker_run [''push'', ''a/app:dev''],
       docker_run [''tag'', ''a/app:1.0'', ''b/app:1.0''],
       docker_run [''push'', ''b/app:1.0''],
       docker_run [''tag'', ''a/app:1.0'', ''b/app:dev''],
       docker_run [''push'', ''b/app:dev'']])"
  by (simp add: tagAction_def loginIfRequired_def runCommand_def execCommand_def seq_def
      skip_def all_succeed_def containerPath_def docker_run_def Let_def)

theorem tagAction_pull_first_witness:
  "snd (tagAction all_succeed [] [''a'', ''b''] ''app'' [''dev''] ''1.0'' []) =
     [docker_run [''pull'', ''a/app:1.0''],
      docker_run [''tag'', ''a/app:1.0'', ''a/app:dev''],
      docker_run [''push'', ''a/app:dev''],
      docker_run [''tag'', ''a/app:1.0'', ''b/app:1.0''],
      docker_run [''push'', ''b/app:1.0''],
      docker_run [''tag'', ''a/app:1.0'', ''b/app:dev''],
      docker_run [''push'', ''b/app:dev'']]
   \<and> docker_op ''tag'' (docker_run [''tag'', ''a/app:1.0'', ''a/app:dev''])
   \<and> docker_run [''pull'', ''a/app:1.0''] \<in>
        set (takeWhile (\<lambda>x. \<not> (docker_op ''tag'' x \<or> docker_op ''push'' x))
               (snd (tagAction all_succeed [] [''a'', ''b''] ''app'' [''dev''] ''1.0'' [])))
   \<and> fst (tagAction all_succeed [] [''a'', ''b''] ''app'' [''dev''] ''1.0'' []) = None"
proof -
  have tagged: "\<exists>x\<in>set (snd (tagAction all_succeed [] (''a'' # [''b'']) ''app'' [''dev''] ''1.0'' [])).
      docker_op ''tag'' x \<or> docker_op ''push'' x"
    by (simp add: tag_example_run docker_op_docker_run)
  have "docker_run [''pull'', containerPath ''a'' ''app'' ''1.0''] \<in>
        set (takeWhile (\<lambda>x. \<not> (docker_op ''tag'' x \<or> docker_op ''push'' x))
               (snd (tagAction all_succeed [] (''a'' # [''b'']) ''app'' [''dev''] ''1.0'' [])))"
    using conjunct1 [OF conjunct2 [OF tagAction_pull_first
      [of all_succeed "[]" "''a''" "[''b'']" "''app''" "[''dev'']" "''1.0''"]]] tagged
    by (rule mp)
  then show ?thesis
    by (simp add: tag_example_run docker_op_docker_run containerPath_def)
qed

section \<open>The tag action with one repository and no tags\<close>

lemma tag_single_plan:
  "tag_plan credentials [r] c [] v =
     login_step credentials (containerPath r c v) @
     [Do (docker_run [''pull'', containerPath r c v])]"
  by (simp add: tag_plan_def Let_def)

text \<open>
  Claim C10. With exactly one repository and no tags, the tag action is the login check for
  the source image followed by the pull of the source image, and nothing else: in every
  run the trace holds login commands and the pull only, so no \<^verbatim>\<open>docker tag\<close> and no
  \<^verbatim>\<open>docker push\<close> command is ever run.
\<close>

theorem tagAction_single_repository:
  "tagAction w credentials [r] c [] v =
     seq (loginIfRequired w credentials (containerPath r c v))
       (runCommand w ''docker'' [''pull'', containerPath r c v])
   \<and> prefix (snd (tagAction w credentials [r] c [] v []))
        (commands (login_step credentials (containerPath r c v)) @
         [docker_run [''pull'', containerPath r c v]])
   \<and> (\<forall>x\<in>set (snd (tagAction w credentials [r] c [] v [])).
        \<not> docker_op ''tag'' x \<and> \<not> docker_op ''push'' x)"
proof (intro conjI)
  let ?src = "containerPath r c v"
  let ?tr = "snd (tagAction w credentials [r] c [] v [])"
  show "tagAction w credentials [r] c [] v =
     seq (loginIfRequired w credentials ?src) (runCommand w ''docker'' [''pull'', ?src])"
    by (simp add: tagAction_def Let_def seq_skip_right)
  show pre: "prefix ?tr (commands (login_step credentials ?src) @ [docker_run [''pull'', ?src]])"
    using execute_trace_prefix [of w "tag_plan credentials [r] c [] v"]
    by (simp add: tagAction_execute tag_single_plan commands_append)
  show "\<forall>x\<in>set ?tr. \<not> docker_op ''tag'' x \<and> \<not> docker_op ''push'' x"
  proof
    fix x
    assume "x \<in> set ?tr"
    with set_mono_prefix [OF pre]
    have "x \<in> set (commands (login_step credentials ?src)) \<or> x = docker_run [''pull'', ?src]"
      by auto
    then show "\<not> docker_op ''tag'' x \<and> \<not> docker_op ''push'' x"
      using commands_login_step [of x credentials ?src] login_not_tag_push [of x]
      by (auto simp: docker_op_docker_run)
  qed
qed

theorem tagAction_single_repository_witness:
  "tagAction all_succeed [] [''a''] ''app'' [] ''1.0'' [] =
     (None, [docker_run [''pull'', ''a/app:1.0'']])
   \<and> \<not> docker_op ''tag'' (docker_run [''pull'', ''a/app:1.0''])
   \<and> \<not> docker_op ''push'' (docker_run [''pull'', ''a/app:1.0''])"
  using tagAction_single_repository [of all_succeed "[]" "''a''" "''app''" "''1.0''"]
  by (simp add: loginIfRequired_def runCommand_def execCommand_def seq_def
      skip_def all_succeed_def containerPath_def docker_run_def docker_op_def)

section \<open>The build action\<close>

lemma commands_map_Do_fun: "commands (map (\<lambda>x. Do (f x)) xs) = map f xs"
  by (induction xs) simp_all

lemma build_plan_commands:
  "commands (build_plan getenv credentials repos c tgs dir file copies names v) =
     Command ''mkdir'' [''-p'', dir] ''/estafette-work'' #
     map (\<lambda>f. Command ''cp'' [''-r'', f, dir] ''/estafette-work'')
       (if dir \<noteq> ''.'' \<and> file \<notin> set copies then copies @ [file] else copies) @
     commands (login_step credentials (containerPath (hd repos) c v)) @
     [docker_run (build_arguments getenv repos c tgs names dir file v)]"
  by (simp add: build_plan_def commands_append commands_map_Do_fun)

lemma build_plan_builds:
  "filter (docker_op ''build'')
     (commands (build_plan getenv credentials repos c tgs dir file copies names v)) =
   [docker_run (build_arguments getenv repos c tgs names dir file v)]"
proof -
  have "filter (docker_op ''build'') (commands (login_step credentials img)) = []" for img
    using commands_login_step [of _ credentials img]
    by (auto simp: filter_empty_conv docker_op_def)
  then show ?thesis
    by (simp add: build_plan_commands docker_op_Command docker_op_docker_run
        build_arguments_def filter_empty_conv)
qed

text \<open>
  Claim C9. The argument list that the build case assembles is \<^verbatim>\<open>build\<close>, then one
  \<^verbatim>\<open>--tag\<close> argument for every pair of a repository and a tag (the default tag first,
  then the explicit tags), in the order of the two lists, then one \<^verbatim>\<open>--build-arg\<close> pair
  for every requested name, with the value of the environment variable of that name, then
  the dockerfile and the build directory. In every run of the build action a
  \<^verbatim>\<open>docker build\<close> command has these arguments and there is at most one; a run that
  reaches its end has issued exactly one, as its last command.
\<close>

theorem buildAction_single_build:
  "buildArgs getenv (r0 # rs) c tgs names dir file v =
     [''build''] @
     concat (map (\<lambda>(r, t). [''--tag'', containerPath r c t])
               (List.product (r0 # rs) (v # tgs))) @
     concat (map (\<lambda>a. [''--build-arg'', a @ ''='' @ getenv a]) names) @
     [''--file'', dir @ ''/'' @ file, dir]
   \<and> (\<forall>x\<in>set (snd (buildAction w getenv credentials (r0 # rs) c tgs dir file copies names v [])).
        docker_op ''build'' x \<longrightarrow>
        x = docker_run (buildArgs getenv (r0 # rs) c tgs names dir file v))
   \<and> length (filter (docker_op ''build'')
        (snd (buildAction w getenv credentials (r0 # rs) c tgs dir file copies names v []))) \<le> 1
   \<and> (fst (buildAction w getenv credentials (r0 # rs) c tgs dir file copies names v []) = None \<longrightarrow>
        filter (docker_op ''build'')
          (snd (buildAction w getenv credentials (r0 # rs) c tgs dir file copies names v [])) =
          [docker_run (buildArgs getenv (r0 # rs) c tgs names dir file v)]
        \<and> last (snd (buildAction w getenv credentials (r0 # rs) c tgs dir file copies names v [])) =
          docker_run (buildArgs getenv (r0 # rs) c tgs names dir file v))"
proof (intro conjI impI ballI)
  let ?plan = "build_plan getenv credentials (r0 # rs) c tgs dir file copies names v"
  let ?tr = "snd (buildAction w getenv credentials (r0 # rs) c tgs dir file copies names v [])"
  let ?B = "docker_run (buildArgs getenv (r0 # rs) c tgs names dir file v)"
  show "buildArgs getenv (r0 # rs) c tgs names dir file v =
     [''build''] @
     concat (map (\<lambda>(r, t). [''--tag'', containerPath r c t])
               (List.product (r0 # rs) (v # tgs))) @
     concat (map (\<lambda>a. [''--build-arg'', a @ ''='' @ getenv a]) names) @
     [''--file'', dir @ ''/'' @ file, dir]"
    by (simp only: buildArgs_build_arguments build_arguments_def)
  have "prefix ?tr (commands ?plan)"
    using execute_trace_prefix [of w ?plan] by (simp only: buildAction_execute)
  then have "prefix (filter (docker_op ''build'') ?tr) [?B]"
    using filter_mono_prefix [of ?tr "commands ?plan" "docker_op ''build''"]
    by (simp only: build_plan_builds buildArgs_build_arguments)
  then have builds: "filter (docker_op ''build'') ?tr = [] \<or> filter (docker_op ''build'') ?tr = [?B]"
    by (cases "filter (docker_op ''build'') ?tr") simp_all
  then show "length (filter (docker_op ''build'') ?tr) \<le> 1"
    by auto
  {
    fix x
    assume "x \<in> set ?tr" and "docker_op ''build'' x"
    then have "x \<in> set (filter (docker_op ''build'') ?tr)" by simp
    with builds show "x = ?B" by (metis empty_iff list.set(1) set_ConsD)
  }
  {
    assume "fst (buildAction w getenv credentials (r0 # rs) c tgs dir file copies names v []) = None"
    then have tr: "?tr = commands ?plan"
      using execute_complete [of w ?plan "[]"] by (simp add: buildAction_execute)
    show "filter (docker_op ''build'') ?tr = [?B]"
      by (simp only: tr build_plan_builds buildArgs_build_arguments)
    show "last ?tr = ?B"
      by (simp only: tr build_plan_commands buildArgs_build_arguments) simp
  }
qed


lemma build_example_run:
  "buildAction all_succeed (\<lambda>n. if n = ''VERSION'' then ''7'' else '''') []
     [''a'', ''b''] ''app'' [''dev''] ''.'' ''Dockerfile'' [] [''VERSION''] ''1.0'' [] =
   (None,
    [Command ''mkdir'' [''-p'', ''.''] ''/estafette-work'',
     docker_run [''build'',
       ''--tag'', ''a/app:1.0'', ''--tag'', ''a/app:dev'',
       ''--tag'', ''b/app:1.0'', ''--tag'', ''b/app:dev'',
       ''--build-arg'', ''VERSION=7'',
       ''--file'', ''./Dockerfile'', ''.'']])"
  by (simp add: buildAction_def buildArgs_def loginIfRequired_def runCommand_def
      execCommand_def seq_def skip_def all_succeed_def containerPath_def docker_run_def Let_def)

theorem buildAction_single_build_witness:
  "buildAction all_succeed (\<lambda>n. if n = ''VERSION'' then ''7'' else '''') []
     [''a'', ''b''] ''app'' [''dev''] ''.'' ''Dockerfile'' [] [''VERSION''] ''1.0'' [] =
   (None,
    [Command ''mkdir'' [''-p'', ''.''] ''/estafette-work'',
     docker_run [''build'',
       ''--tag'', ''a/app:1.0'', ''--tag'', ''a/app:dev'',
       ''--tag'', ''b/app:1.0'', ''--tag'', ''b/app:dev'',
       ''--build-arg'', ''VERSION=7'',
       ''--file'', ''./Dockerfile'', ''.'']])
   \<and> filter (docker_op ''build'')
       (snd (buildAction all_succeed (\<lambda>n. if n = ''VERSION'' then ''7'' else '''') []
          [''a'', ''b''] ''app'' [''dev''] ''.'' ''Dockerfile'' [] [''VERSION''] ''1.0'' [])) =
     [docker_run (buildArgs (\<lambda>n. if n = ''VERSION'' then ''7'' else '''')
        [''a'', ''b''] ''app'' [''dev''] [''VERSION''] ''.'' ''Dockerfile'' ''1.0'')]
   \<and> buildArgs (\<lambda>n. if n = ''VERSION'' then ''7'' else '''')
        [''a'', ''b''] ''app'' [''dev''] [''VERSION''] ''.'' ''Dockerfile'' ''1.0'' =
     [''build'',
       ''--tag'', ''a/app:1.0'', ''--tag'', ''a/app:dev'',
       ''--tag'', ''b/app:1.0'', ''--tag'', ''b/app:dev'',
       ''--build-arg'', ''VERSION=7'',
       ''--file'', ''./Dockerfile'', ''.'']"
proof -
  let ?getenv = "\<lambda>n. if n = ''VERSION'' then ''7'' else ''''"
  note claim = buildAction_single_build
    [of ?getenv "''a''" "[''b'']" "''app''" "[''dev'']" "[''VERSION'']" "''.''" "''Dockerfile''"
        "''1.0''" all_succeed "[]" "[]"]
  have ended: "fst (buildAction all_succeed ?getenv [] (''a'' # [''b'']) ''app'' [''dev''] ''.''
      ''Dockerfile'' [] [''VERSION''] ''1.0'' []) = None"
    by (simp add: build_example_run)
  have "filter (docker_op ''build'')
       (snd (buildAction all_succeed ?getenv [] (''a'' # [''b'']) ''app'' [''dev''] ''.''
          ''Dockerfile'' [] [''VERSION''] ''1.0'' [])) =
     [docker_run (buildArgs ?getenv (''a'' # [''b'']) ''app'' [''dev''] [''VERSION''] ''.''
        ''Dockerfile'' ''1.0'')]"
    using conjunct2 [OF conjunct2 [OF conjunct2 [OF claim]]] ended by blast
  moreover have "buildArgs ?getenv [''a'', ''b''] ''app'' [''dev''] [''VERSION''] ''.''
      ''Dockerfile'' ''1.0'' =
     [''build'',
       ''--tag'', ''a/app:1.0'', ''--tag'', ''a/app:dev'',
       ''--tag'', ''b/app:1.0'', ''--tag'', ''b/app:dev'',
       ''--build-arg'', ''VERSION=7'',
       ''--file'', ''./Dockerfile'', ''.'']"
    using conjunct1 [OF claim] by (simp add: containerPath_def)
  ultimately show ?thesis
    using build_example_run by (intro conjI)
qed

section \<open>The main function: configuration and credentials\<close>

lemma splitList_Nil: "splitList s = [] \<longleftrightarrow> s = ''''"
  by (simp add: splitList_def Split_nonempty)

lemma splitList_Cons: "s \<noteq> '''' \<Longrightarrow> \<exists>r0 rs. splitList s = r0 # rs"
  using splitList_Nil [of s] by (cases "splitList s") simp_all

lemma main_no_repositories:
  "repositories fl = '''' \<Longrightarrow>
   main w decode getenv fl tr =
     (Some (ConfigFatal
        ''Set `repositories:` to list at least one `- <repository>` (for example like `- extensions`)''),
      tr)"
  by (cases "container fl = '''' \<and> getenv ''ESTAFETTE_LABEL_APP'' \<noteq> ''''")
     (simp_all add: main_def Let_def validateRepositories_def seq_def abort_def)

lemma main_dispatch:
  "repositories fl \<noteq> '''' \<Longrightarrow>
   main w decode getenv fl =
     (let c = (if container fl = '''' \<and> getenv ''ESTAFETTE_LABEL_APP'' \<noteq> ''''
               then getenv ''ESTAFETTE_LABEL_APP'' else container fl);
          credentials = loadCredentials decode getenv;
          v = tidyBuildVersionAsTag (getenv ''ESTAFETTE_BUILD_VERSION'')
      in if action fl = ''build''
         then buildAction w getenv credentials (splitList (repositories fl)) c
                (splitList (tags fl)) (path fl) (dockerfile fl) (splitList (copy fl))
                (splitList (args fl)) v
         else if action fl = ''push''
         then pushAction w credentials (splitList (repositories fl)) c (splitList (tags fl)) v
         else if action fl = ''tag''
         then tagAction w credentials (splitList (repositories fl)) c (splitList (tags fl)) v
         else abort (ConfigFatal
                ''Set `command: <command>` on this step to build, push or tag''))"
  by (cases "container fl = '''' \<and> getenv ''ESTAFETTE_LABEL_APP'' \<noteq> ''''")
     (simp_all add: main_def Let_def validateRepositories_def seq_skip_left)

text \<open>
  Claim C7. When the list of repositories is empty, \<open>main\<close> ends with the fatal
  configuration error of \<open>validateRepositories\<close> and the trace is as it was: no command has
  been run. When the action is none of build, push and tag, \<open>main\<close> ends with a fatal
  configuration error and the trace is as it was.
\<close>

theorem main_configuration_errors:
  "(splitList (repositories fl) = [] \<longrightarrow>
      main w decode getenv fl tr =
        (Some (ConfigFatal
           ''Set `repositories:` to list at least one `- <repository>` (for example like `- extensions`)''),
         tr))
   \<and> (action fl \<noteq> ''build'' \<and> action fl \<noteq> ''push'' \<and> action fl \<noteq> ''tag'' \<longrightarrow>
        (\<exists>msg. main w decode getenv fl tr = (Some (ConfigFatal msg), tr)))"
proof (intro conjI impI)
  assume "splitList (repositories fl) = []"
  then have "repositories fl = ''''" by (simp only: splitList_Nil)
  then show "main w decode getenv fl tr =
        (Some (ConfigFatal
           ''Set `repositories:` to list at least one `- <repository>` (for example like `- extensions`)''),
         tr)"
    by (rule main_no_repositories)
next
  assume other: "action fl \<noteq> ''build'' \<and> action fl \<noteq> ''push'' \<and> action fl \<noteq> ''tag''"
  show "\<exists>msg. main w decode getenv fl tr = (Some (ConfigFatal msg), tr)"
  proof (cases "repositories fl = ''''")
    case True
    then show ?thesis using main_no_repositories [of fl w decode getenv tr] by blast
  next
    case False
    then show ?thesis using other by (simp add: main_dispatch Let_def abort_def)
  qed
qed

theorem main_configuration_errors_witness:
  "main all_succeed (\<lambda>js. SyntaxError) (\<lambda>n. '''')
     \<lparr>action = ''push'', repositories = '''', container = ''app'', tags = ''dev'',
      path = ''.'', dockerfile = ''Dockerfile'', copy = '''', args = ''''\<rparr> [] =
     (Some (ConfigFatal
        ''Set `repositories:` to list at least one `- <repository>` (for example like `- extensions`)''),
      [])
   \<and> main all_succeed (\<lambda>js. SyntaxError) (\<lambda>n. '''')
     \<lparr>action = ''deploy'', repositories = ''a,b'', container = ''app'', tags = ''dev'',
      path = ''.'', dockerfile = ''Dockerfile'', copy = '''', args = ''''\<rparr> [] =
     (Some (ConfigFatal ''Set `command: <command>` on this step to build, push or tag''), [])"
  using main_configuration_errors
    [of "\<lparr>action = ''push'', repositories = '''', container = ''app'', tags = ''dev'',
      path = ''.'', dockerfile = ''Dockerfile'', copy = '''', args = ''''\<rparr>"
      all_succeed "\<lambda>js. SyntaxError" "\<lambda>n. ''''" "[]"]
    main_configuration_errors
    [of "\<lparr>action = ''deploy'', repositories = ''a,b'', container = ''app'', tags = ''dev'',
      path = ''.'', dockerfile = ''Dockerfile'', copy = '''', args = ''''\<rparr>"
      all_succeed "\<lambda>js. SyntaxError" "\<lambda>n. ''''" "[]"]
  by (simp add: main_def Let_def validateRepositories_def seq_def abort_def skip_def
      splitList_def)


section \<open>Runs without credentials\<close>

lemma loadCredentials_malformed:
  "getenv ''ESTAFETTE_CI_REPOSITORY_CREDENTIALS_JSON'' = '''' \<or>
   decode (getenv ''ESTAFETTE_CI_REPOSITORY_CREDENTIALS_JSON'') = SyntaxError \<Longrightarrow>
   loadCredentials decode getenv = []"
  by (auto simp: loadCredentials_def json_Unmarshal_def Let_def)

lemma loadCredentials_decoded_empty: "loadCredentials (\<lambda>js. Decoded []) getenv = []"
  by (simp add: loadCredentials_def json_Unmarshal_def Let_def)

lemma main_credentials:
  "loadCredentials decode getenv = loadCredentials decode' getenv \<Longrightarrow>
   main w decode getenv fl = main w decode' getenv fl"
  by (simp add: main_def)

lemma publish_step_plain:
  "publish_step [] source r c t =
     [Do (docker_run [''tag'', source, containerPath r c t]),
      Do (docker_run [''push'', containerPath r c t])]"
  by (simp add: publish_step_def login_step_empty)

lemma push_plan_plain:
  "s \<in> set (push_plan [] repos c tgs v) \<Longrightarrow>
   \<exists>x. s = Do x \<and> \<not> docker_op ''login'' x"
  by (auto simp: push_plan_def Let_def login_step_empty publish_step_plain
      docker_op_docker_run docker_op_Command split: if_splits)

lemma tag_plan_plain:
  "s \<in> set (tag_plan [] repos c tgs v) \<Longrightarrow>
   \<exists>x. s = Do x \<and> \<not> docker_op ''login'' x"
  by (auto simp: tag_plan_def Let_def login_step_empty publish_step_plain
      docker_op_docker_run docker_op_Command split: if_splits)

lemma build_plan_plain:
  "s \<in> set (build_plan getenv [] repos c tgs dir file copies names v) \<Longrightarrow>
   \<exists>x. s = Do x \<and> \<not> docker_op ''login'' x"
  by (auto simp: build_plan_def login_step_empty build_arguments_def
      docker_op_docker_run docker_op_Command split: if_splits)

lemma commands_of_plain:
  "(\<And>s. s \<in> set plan \<Longrightarrow> \<exists>x. s = Do x \<and> P x) \<Longrightarrow>
   x \<in> set (commands plan) \<Longrightarrow> P x"
proof (induction plan rule: commands.induct)
  case 1
  then show ?case by simp
next
  case (2 c ss)
  then show ?case by auto
next
  case (3 e ss)
  then show ?case by (metis list.set_intros(1) step.distinct(1))
qed

lemma plain_run:
  assumes "\<And>s. s \<in> set plan \<Longrightarrow> \<exists>x. s = Do x \<and> P x"
  shows "\<forall>x\<in>set (snd (execute w plan [])). P x"
    and "fst (execute all_succeed plan []) = None"
proof -
  show "\<forall>x\<in>set (snd (execute w plan [])). P x"
    using set_mono_prefix [OF execute_trace_prefix [of w plan]] commands_of_plain [OF assms]
    by blast
  have "\<forall>e. Stop e \<notin> set plan"
    using assms by blast
  then show "fst (execute all_succeed plan []) = None"
    by (simp add: execute_all_succeed)
qed

lemma main_without_credentials:
  assumes "loadCredentials decode getenv = []"
  shows "\<forall>x\<in>set (snd (main w decode getenv fl [])). \<not> docker_op ''login'' x"
    and "repositories fl \<noteq> '''' \<Longrightarrow> action fl \<in> {''build'', ''push'', ''tag''} \<Longrightarrow>
         fst (main all_succeed decode getenv fl []) = None"
proof -
  show "\<forall>x\<in>set (snd (main w decode getenv fl [])). \<not> docker_op ''login'' x"
  proof (cases "repositories fl = ''''")
    case True
    then show ?thesis by (simp add: main_no_repositories)
  next
    case False
    then obtain r0 rs where "splitList (repositories fl) = r0 # rs"
      using splitList_Cons by blast
    then show ?thesis
      using False assms
        plain_run(1) [OF push_plan_plain]
        plain_run(1) [OF tag_plan_plain]
        plain_run(1) [OF build_plan_plain]
      by (simp add: main_dispatch Let_def pushAction_execute tagAction_execute
          buildAction_execute abort_def)
  qed
next
  assume "repositories fl \<noteq> ''''" and known: "action fl \<in> {''build'', ''push'', ''tag''}"
  then obtain r0 rs where "splitList (repositories fl) = r0 # rs"
    using splitList_Cons by blast
  then show "fst (main all_succeed decode getenv fl []) = None"
    using \<open>repositories fl \<noteq> ''''\<close> known assms
      plain_run(2) [OF push_plan_plain]
      plain_run(2) [OF tag_plan_plain]
      plain_run(2) [OF build_plan_plain]
    by (auto simp: main_dispatch Let_def pushAction_execute tagAction_execute
        buildAction_execute)
qed


text \<open>
  Claim C8. When the credentials variable is unset or empty, or its value is not
  well-formed JSON (the parser answers with a syntax error), the credentials of the run are
  the empty list and nothing is reported: every lookup returns none, \<open>loginIfRequired\<close>
  does nothing, the run is the run that an empty JSON array would give, its trace holds no
  \<^verbatim>\<open>docker login\<close>, and with a valid configuration it reaches its end when every command
  succeeds.
\<close>

theorem malformed_credentials_are_no_credentials:
  "getenv ''ESTAFETTE_CI_REPOSITORY_CREDENTIALS_JSON'' = '''' \<or>
   decode (getenv ''ESTAFETTE_CI_REPOSITORY_CREDENTIALS_JSON'') = SyntaxError \<longrightarrow>
     loadCredentials decode getenv = []
     \<and> getCredentialsForContainer (loadCredentials decode getenv) img = Inr None
     \<and> loginIfRequired w (loadCredentials decode getenv) img tr = (None, tr)
     \<and> main w decode getenv fl = main w (\<lambda>js. Decoded []) getenv fl
     \<and> (\<forall>x\<in>set (snd (main w decode getenv fl [])). \<not> docker_op ''login'' x)
     \<and> (repositories fl \<noteq> '''' \<and> action fl \<in> {''build'', ''push'', ''tag''} \<longrightarrow>
          fst (main all_succeed decode getenv fl []) = None)"
proof (intro impI)
  assume "getenv ''ESTAFETTE_CI_REPOSITORY_CREDENTIALS_JSON'' = '''' \<or>
   decode (getenv ''ESTAFETTE_CI_REPOSITORY_CREDENTIALS_JSON'') = SyntaxError"
  then have none: "loadCredentials decode getenv = []"
    by (rule loadCredentials_malformed)
  have "getCredentialsForContainer (loadCredentials decode getenv) img = Inr None"
    by (simp add: none)
  moreover have "loginIfRequired w (loadCredentials decode getenv) img tr = (None, tr)"
    by (simp add: none loginIfRequired_None skip_def)
  moreover have "main w decode getenv fl = main w (\<lambda>js. Decoded []) getenv fl"
    by (rule main_credentials) (simp only: none loadCredentials_decoded_empty)
  moreover have "\<forall>x\<in>set (snd (main w decode getenv fl [])). \<not> docker_op ''login'' x"
    using none by (rule main_without_credentials(1))
  moreover have "repositories fl \<noteq> '''' \<and> action fl \<in> {''build'', ''push'', ''tag''} \<longrightarrow>
          fst (main all_succeed decode getenv fl []) = None"
    using main_without_credentials(2) [OF none] by blast
  ultimately show "loadCredentials decode getenv = []
     \<and> getCredentialsForContainer (loadCredentials decode getenv) img = Inr None
     \<and> loginIfRequired w (loadCredentials decode getenv) img tr = (None, tr)
     \<and> main w decode getenv fl = main w (\<lambda>js. Decoded []) getenv fl
     \<and> (\<forall>x\<in>set (snd (main w decode getenv fl [])). \<not> docker_op ''login'' x)
     \<and> (repositories fl \<noteq> '''' \<and> action fl \<in> {''build'', ''push'', ''tag''} \<longrightarrow>
          fst (main all_succeed decode getenv fl []) = None)"
    using none by (intro conjI)
qed

lemma main_example_run:
  "main all_succeed (\<lambda>js. SyntaxError)
     (\<lambda>n. if n = ''ESTAFETTE_CI_REPOSITORY_CREDENTIALS_JSON'' then ''[{'' else
           if n = ''ESTAFETTE_BUILD_VERSION'' then ''1.0'' else '''')
     \<lparr>action = ''push'', repositories = ''a,b'', container = ''app'', tags = ''dev'',
      path = ''.'', dockerfile = ''Dockerfile'', copy = '''', args = ''''\<rparr> [] =
   (None,
      [docker_run [''push'', ''a/app:1.0''],
       docker_run [''tag'', ''a/app:1.0'', ''a/app:dev''],
       docker_run [''push'', ''a/app:dev''],
       Command ''docker'' [''tag'', ''a/app:1.0'', ''b/app:1.0''] [],
       docker_run [''push'', ''b/app:1.0''],
       docker_run [''tag'', ''a/app:1.0'', ''b/app:dev''],
       docker_run [''push'', ''b/app:dev'']])"
proof -
  have repos: "splitList ''a,b'' = [''a'', ''b'']"
    using Split_sep [of "CHR '',''" "''a''" "''b''"] Split_no_sep [of "CHR '',''" "''b''"]
    by (simp add: splitList_def)
  have tgs: "splitList ''dev'' = [''dev'']"
    using Split_no_sep [of "CHR '',''" "''dev''"] by (simp add: splitList_def)
  have version: "tidyBuildVersionAsTag ''1.0'' = ''1.0''"
    by (simp add: tagChar_def)
  have creds: "loadCredentials (\<lambda>js. SyntaxError)
     (\<lambda>n. if n = ''ESTAFETTE_CI_REPOSITORY_CREDENTIALS_JSON'' then ''[{'' else
           if n = ''ESTAFETTE_BUILD_VERSION'' then ''1.0'' else '''') = []"
    by (simp add: loadCredentials_def json_Unmarshal_def Let_def)
  show ?thesis
    by (simp add: main_def Let_def validateRepositories_def seq_skip_left repos tgs version
        creds push_example_run del: tidyBuildVersionAsTag.simps)
qed

theorem malformed_credentials_are_no_credentials_witness:
  "loadCredentials (\<lambda>js. SyntaxError)
     (\<lambda>n. if n = ''ESTAFETTE_CI_REPOSITORY_CREDENTIALS_JSON'' then ''[{'' else
           if n = ''ESTAFETTE_BUILD_VERSION'' then ''1.0'' else '''') = []
   \<and> main all_succeed (\<lambda>js. SyntaxError)
     (\<lambda>n. if n = ''ESTAFETTE_CI_REPOSITORY_CREDENTIALS_JSON'' then ''[{'' else
           if n = ''ESTAFETTE_BUILD_VERSION'' then ''1.0'' else '''')
     \<lparr>action = ''push'', repositories = ''a,b'', container = ''app'', tags = ''dev'',
      path = ''.'', dockerfile = ''Dockerfile'', copy = '''', args = ''''\<rparr> [] =
   (None,
      [docker_run [''push'', ''a/app:1.0''],
       docker_run [''tag'', ''a/app:1.0'', ''a/app:dev''],
       docker_run [''push'', ''a/app:dev''],
       Command ''docker'' [''tag'', ''a/app:1.0'', ''b/app:1.0''] [],
       docker_run [''push'', ''b/app:1.0''],
       docker_run [''tag'', ''a/app:1.0'', ''b/app:dev''],
       docker_run [''push'', ''b/app:dev'']])
   \<and> \<not> docker_op ''login'' (docker_run [''push'', ''a/app:1.0''])"
proof -
  let ?getenv = "\<lambda>n. if n = ''ESTAFETTE_CI_REPOSITORY_CREDENTIALS_JSON'' then ''[{'' else
           if n = ''ESTAFETTE_BUILD_VERSION'' then ''1.0'' else ''''"
  let ?fl = "\<lparr>action = ''push'', repositories = ''a,b'', container = ''app'', tags = ''dev'',
      path = ''.'', dockerfile = ''Dockerfile'', copy = '''', args = ''''\<rparr>"
  have malformed: "?getenv ''ESTAFETTE_CI_REPOSITORY_CREDENTIALS_JSON'' = '''' \<or>
      (\<lambda>js. SyntaxError) (?getenv ''ESTAFETTE_CI_REPOSITORY_CREDENTIALS_JSON'') = SyntaxError"
    by simp
  note claim = mp [OF malformed_credentials_are_no_credentials
      [of ?getenv "\<lambda>js. SyntaxError" "''a/app:1.0''" all_succeed "[]" ?fl] malformed]
  have "loadCredentials (\<lambda>js. SyntaxError) ?getenv = []"
    using conjunct1 [OF claim] .
  moreover have "\<not> docker_op ''login'' (docker_run [''push'', ''a/app:1.0''])"
    by (simp add: docker_op_docker_run)
  ultimately show ?thesis
    using main_example_run by (intro conjI)
qed

end
